theory Spec2Isabelle
  imports Complex_Main "HOL-Library.AList"
begin

section \<open>Data model of the embedding server\<close>

text \<open>
  The theory embeds \<^verbatim>\<open>embedding_server.py\<close>: the module-level \<^verbatim>\<open>index\<close> (a FAISS
  \<^verbatim>\<open>IndexFlatL2\<close>), the module-level \<^verbatim>\<open>state\<close> dictionary and the route handlers that
  mutate them.

  JSON values as Flask hands them to the handlers. Metadata is an arbitrary JSON value;
  a JSON object is kept as its list of items.
\<close>

datatype json =
    JNull
  | JBool bool
  | JNum int
  | JStr string
  | JArr "json list"
  | JObj "(string \<times> json) list"

text \<open>
  The id of a document as a request carries it: a JSON string or a JSON integer. The
  handlers do not look at the type of an id, so both reach the state; a \<^verbatim>\<open>DELETE\<close>
  names its document in the URL, which gives a string. (An explicit \<^verbatim>\<open>null\<close>, booleans,
  floats, lists and objects as ids are not modelled.) Python's \<^verbatim>\<open>not doc_id\<close> holds for the empty string
  and for zero.
\<close>

datatype ident = Str string | Num int

definition truthy :: "ident \<Rightarrow> bool" where
  "truthy i = (case i of Str s \<Rightarrow> s \<noteq> [] | Num n \<Rightarrow> n \<noteq> 0)"

text \<open>
  The text of an id: the string itself, or the decimal digits of the integer. It is the
  key that \<^verbatim>\<open>json.dump\<close> writes for a dictionary key, and what a \<^verbatim>\<open>KeyError\<close> reports.
\<close>

fun decimal :: "nat \<Rightarrow> string" where
  "decimal n =
     (if n < 10 then [''0123456789'' ! n]
      else decimal (n div 10) @ [''0123456789'' ! (n mod 10)])"

declare decimal.simps [simp del]

definition key_text :: "ident \<Rightarrow> string" where
  "key_text i =
     (case i of
        Str s \<Rightarrow> s
      | Num n \<Rightarrow> if n < 0 then CHR ''-'' # decimal (nat (- n)) else decimal (nat n))"

text \<open>
  An entry of \<^verbatim>\<open>state["documents"]\<close>: the dictionary
  \<^verbatim>\<open>{"text": text, "metadata": metadata}\<close>.
\<close>

record doc =
  doc_text :: string
  doc_metadata :: json

text \<open>
  The \<^verbatim>\<open>state\<close> dictionary. A Python dictionary keeps its keys in insertion order,
  overwrites the value of a key that is present and appends a key that is new: it is an
  association list written with \<open>AList.update\<close>, read with \<open>map_of\<close> and shrunk with
  \<open>AList.delete\<close>. The type \<open>'v\<close> is a float32 vector of \<^verbatim>\<open>EMBEDDING_DIM\<close> entries
  (the cached list of floats converts back to the same float32 row).
\<close>

record 'v state =
  documents :: "(ident \<times> doc) list"
  id_list :: "ident list"
  embeddings :: "(ident \<times> 'v) list"

text \<open>
  A file of \<^verbatim>\<open>faiss_data/\<close>: missing, unreadable (reading it raises), or holding the
  value that reading it gives. \<^verbatim>\<open>faiss.write_index\<close> and \<^verbatim>\<open>faiss.read_index\<close> are
  library code: the index file gives back the rows written. What \<^verbatim>\<open>json.load\<close> gives
  back for the state file is \<open>json_state\<close> below.
\<close>

datatype 'a disk_file = Absent | Corrupt | Content 'a

text \<open>
  The process after start-up: the rows of the FAISS index in row order, the state
  dictionary, the two files, and whether a write to each file succeeds (a write that
  fails raises inside \<^verbatim>\<open>save_state\<close>). A write of the state file can fail in
  \<^verbatim>\<open>open(STATE_FILE, 'w')\<close>, which leaves the file as it was, or later in
  \<^verbatim>\<open>json.dump\<close>, when \<^verbatim>\<open>open\<close> has already truncated the file: \<open>state_truncates\<close>
  says which.
\<close>

record 'v server =
  index :: "'v list"
  state :: "'v state"
  index_file :: "'v list disk_file"
  state_file :: "'v state disk_file"
  index_writable :: bool
  state_writable :: bool
  state_truncates :: bool

text \<open>
  The collaborators the handlers call and this repository does not contain:
  \<^item> \<open>encode\<close>: \<^verbatim>\<open>model.encode([s]).astype('float32')\<close> for one framed text, \<open>None\<close>
    when the call raises; a batch is encoded text by text and fails when one text fails;
  \<^item> \<open>normalize_L2\<close>: \<^verbatim>\<open>faiss.normalize_L2\<close> on one row;
  \<^item> \<open>index_search\<close>: \<^verbatim>\<open>index.search(query, top_k)\<close> on the rows of the index, giving
    the pairs (row label, distance) of \<^verbatim>\<open>indices[0]\<close> and \<^verbatim>\<open>distances[0]\<close>, \<open>None\<close>
    when the call raises. No property of FAISS is assumed: any labels may come back.
\<close>

record ('v, 'd) env =
  encode :: "string \<Rightarrow> 'v option"
  normalize_L2 :: "'v \<Rightarrow> 'v"
  index_search :: "'v list \<Rightarrow> 'v \<Rightarrow> int \<Rightarrow> (int \<times> 'd) list option"

text \<open>
  Exceptions a handler can meet, and the error responses: status 400
  (\<open>InvalidInput\<close>), 404 (\<open>NotFound\<close>) and 500 (\<open>ServerError\<close>, carrying the exception
  whose text the response reports).
\<close>

datatype exn = EncodeError | KeyError string | ValueError | IndexError | IOError | SearchError

datatype error = InvalidInput | NotFound | ServerError exn

text \<open>One entry of a search response.\<close>

record 'd hit =
  hit_id :: ident
  score :: 'd
  hit_text :: string
  hit_metadata :: json

text \<open>One entry of the document listing.\<close>

record doc_view =
  view_id :: ident
  title :: json
  content :: json
  category :: json
  createdBy :: json

text \<open>The bodies of the successful responses.\<close>

datatype 'd response =
    Added ident
  | BatchEmpty
  | BatchAdded nat nat
  | Results "'d hit list"
  | Deleted
  | Cleared

text \<open>
  Request bodies. A field that the JSON object omits is \<open>None\<close>; \<^verbatim>\<open>text\<close> and
  \<^verbatim>\<open>query\<close> are strings when present, as the service's callers send them.
\<close>

record doc_request =
  req_id :: "ident option"
  req_text :: "string option"
  req_metadata :: "json option"

record search_request =
  query :: "string option"
  top_k :: "int option"

section \<open>Persistence\<close>

definition empty_state :: "'v state" where
  "empty_state = \<lparr>documents = [], id_list = [], embeddings = []\<rparr>"

text \<open>
  What \<^verbatim>\<open>json.load\<close> reads from the text that \<^verbatim>\<open>json.dump\<close> wrote for a dictionary:
  \<^verbatim>\<open>json.dump\<close> writes the items in order, each key as its text, and
  \<^verbatim>\<open>json.load\<close> inserts them in that order into a new dictionary, so every key comes
  back as a string and two keys with the same text become one. Lists, strings, numbers
  and nested values come back as they were.
\<close>

definition json_keys :: "(ident \<times> 'a) list \<Rightarrow> (ident \<times> 'a) list" where
  "json_keys d = foldl (\<lambda>acc (k, v). AList.update (Str (key_text k)) v acc) [] d"

definition json_state :: "'v state \<Rightarrow> 'v state" where
  "json_state st =
     \<lparr>documents = json_keys (documents st), id_list = id_list st,
      embeddings = json_keys (embeddings st)\<rparr>"

text \<open>
  \<^verbatim>\<open>save_state\<close>: writes the index file, then the state file. The result is the
  exception raised, if any, and the process afterwards.
\<close>

definition save_state :: "'v server \<Rightarrow> exn option \<times> 'v server" where
  "save_state srv =
     (if \<not> index_writable srv then (Some IOError, srv)
      else let srv1 = srv\<lparr>index_file := Content (index srv)\<rparr> in
        if \<not> state_writable srv1
        then (Some IOError, if state_truncates srv1 then srv1\<lparr>state_file := Corrupt\<rparr> else srv1)
        else (None, srv1\<lparr>state_file := Content (json_state (state srv1))\<rparr>))"



section \<open>Handlers\<close>

text \<open>
  Every handler takes the process and the request and returns the response with the
  process as the handler leaves it: an exception caught by the handler's
  \<^verbatim>\<open>except\<close> keeps the mutations made before it was raised.
\<close>

definition finish :: "'d response \<Rightarrow> 'v server \<Rightarrow> (error + 'd response) \<times> 'v server" where
  "finish ok srv =
     (case save_state srv of
        (Some e, srv') \<Rightarrow> (Inl (ServerError e), srv')
      | (None, srv') \<Rightarrow> (Inr ok, srv'))"

text \<open>The three writes of one document into the state dictionary, in the source's order.\<close>

definition store :: "ident \<Rightarrow> string \<Rightarrow> json \<Rightarrow> 'v \<Rightarrow> 'v state \<Rightarrow> 'v state" where
  "store doc_id txt metadata embedding st =
     (let st1 = st\<lparr>documents :=
                  AList.update doc_id \<lparr>doc_text = txt, doc_metadata = metadata\<rparr> (documents st)\<rparr>;
          st2 = st1\<lparr>id_list := id_list st1 @ [doc_id]\<rparr>
      in st2\<lparr>embeddings := AList.update doc_id embedding (embeddings st2)\<rparr>)"

text \<open>\<^verbatim>\<open>data.get('metadata', {})\<close>.\<close>

definition metadata_or_empty :: "json option \<Rightarrow> json" where
  "metadata_or_empty m = (case m of None \<Rightarrow> JObj [] | Some v \<Rightarrow> v)"

text \<open>\<^verbatim>\<open>POST /index/add\<close>.\<close>

definition add_document ::
  "('v, 'd) env \<Rightarrow> 'v server \<Rightarrow> doc_request \<Rightarrow> (error + 'd response) \<times> 'v server" where
  "add_document env srv data =
     (let metadata = metadata_or_empty (req_metadata data) in
      case req_id data of
        None \<Rightarrow> (Inl InvalidInput, srv)
      | Some doc_id \<Rightarrow>
          (case req_text data of
             None \<Rightarrow> (Inl InvalidInput, srv)
           | Some txt \<Rightarrow>
               if \<not> truthy doc_id \<or> txt = [] then (Inl InvalidInput, srv)
               else
                 (case encode env (''passage: '' @ txt) of
                    None \<Rightarrow> (Inl (ServerError EncodeError), srv)
                  | Some e \<Rightarrow>
                      let embedding = normalize_L2 env e;
                          srv1 = srv\<lparr>index := index srv @ [embedding]\<rparr>;
                          srv2 = srv1\<lparr>state := store doc_id txt metadata embedding (state srv1)\<rparr>
                      in finish (Added doc_id) srv2)))"

text \<open>
  \<^verbatim>\<open>POST /index/add-batch\<close>. The list comprehension over \<^verbatim>\<open>d['text']\<close> raises
  \<^verbatim>\<open>KeyError\<close> at the first document without a text.
\<close>

fun batch_texts :: "doc_request list \<Rightarrow> string list option" where
  "batch_texts [] = Some []"
| "batch_texts (d # ds) =
     (case req_text d of
        None \<Rightarrow> None
      | Some txt \<Rightarrow>
          (case batch_texts ds of
             None \<Rightarrow> None
           | Some ts \<Rightarrow> Some ((''passage: '' @ txt) # ts)))"

fun encode_all :: "('v, 'd) env \<Rightarrow> string list \<Rightarrow> 'v list option" where
  "encode_all env [] = Some []"
| "encode_all env (t # ts) =
     (case encode env t of
        None \<Rightarrow> None
      | Some v \<Rightarrow>
          (case encode_all env ts of
             None \<Rightarrow> None
           | Some vs \<Rightarrow> Some (v # vs)))"

text \<open>
  The loop \<^verbatim>\<open>for i, doc in enumerate(docs)\<close> over the documents and their rows:
  \<^verbatim>\<open>doc['id']\<close> raises \<^verbatim>\<open>KeyError\<close> when the entry has no id, and the loop stops
  there with the earlier entries stored.
\<close>

fun batch_loop :: "(doc_request \<times> 'v) list \<Rightarrow> 'v state \<Rightarrow> exn option \<times> 'v state" where
  "batch_loop [] st = (None, st)"
| "batch_loop ((d, embedding) # rest) st =
     (case req_id d of
        None \<Rightarrow> (Some (KeyError ''id''), st)
      | Some doc_id \<Rightarrow>
          (case req_text d of
             None \<Rightarrow> (Some (KeyError ''text''), st)
           | Some txt \<Rightarrow>
               batch_loop rest
                 (store doc_id txt (metadata_or_empty (req_metadata d)) embedding st)))"

definition add_documents_batch ::
  "('v, 'd) env \<Rightarrow> 'v server \<Rightarrow> doc_request list \<Rightarrow> (error + 'd response) \<times> 'v server" where
  "add_documents_batch env srv docs =
     (if docs = [] then (Inr BatchEmpty, srv)
      else
        (case batch_texts docs of
           None \<Rightarrow> (Inl (ServerError (KeyError ''text'')), srv)
         | Some texts \<Rightarrow>
             (case encode_all env texts of
                None \<Rightarrow> (Inl (ServerError EncodeError), srv)
              | Some es \<Rightarrow>
                  let embs = map (normalize_L2 env) es;
                      srv1 = srv\<lparr>index := index srv @ embs\<rparr>
                  in
                    (case batch_loop (zip docs embs) (state srv1) of
                       (Some e, st') \<Rightarrow> (Inl (ServerError e), srv1\<lparr>state := st'\<rparr>)
                     | (None, st') \<Rightarrow>
                         finish (BatchAdded (length docs) (length (id_list st')))
                           (srv1\<lparr>state := st'\<rparr>)))))"

text \<open>
  \<^verbatim>\<open>POST /index/search\<close>. \<^verbatim>\<open>state["id_list"][idx]\<close> is Python indexing: a negative
  label counts from the end of the list, and a label below \<^verbatim>\<open>-len\<close> raises
  \<^verbatim>\<open>IndexError\<close>.
\<close>

definition py_index :: "'a list \<Rightarrow> int \<Rightarrow> exn + 'a" where
  "py_index xs i =
     (let n = int (length xs) in
      if 0 \<le> i \<and> i < n then Inr (xs ! nat i)
      else if i < 0 \<and> - n \<le> i then Inr (xs ! nat (n + i))
      else Inl IndexError)"

fun search_loop :: "'v state \<Rightarrow> (int \<times> 'd) list \<Rightarrow> exn + 'd hit list" where
  "search_loop st [] = Inr []"
| "search_loop st ((idx, dst) # rest) =
     (if idx = - 1 \<or> idx \<ge> int (length (id_list st)) then search_loop st rest
      else
        (case py_index (id_list st) idx of
           Inl e \<Rightarrow> Inl e
         | Inr doc_id \<Rightarrow>
             (case map_of (documents st) doc_id of
                None \<Rightarrow> Inl (KeyError (key_text doc_id))
              | Some d \<Rightarrow>
                  (case search_loop st rest of
                     Inl e \<Rightarrow> Inl e
                   | Inr rs \<Rightarrow>
                       Inr (\<lparr>hit_id = doc_id, score = dst, hit_text = doc_text d,
                             hit_metadata = doc_metadata d\<rparr> # rs)))))"

definition search ::
  "('v, 'd) env \<Rightarrow> 'v server \<Rightarrow> search_request \<Rightarrow> (error + 'd response) \<times> 'v server" where
  "search env srv data =
     (let k = (case top_k data of None \<Rightarrow> 5 | Some n \<Rightarrow> n) in
      case query data of
        None \<Rightarrow> (Inl InvalidInput, srv)
      | Some q \<Rightarrow>
          if q = [] then (Inl InvalidInput, srv)
          else
            (case encode env (''query: '' @ q) of
               None \<Rightarrow> (Inl (ServerError EncodeError), srv)
             | Some e \<Rightarrow>
                 let query_embedding = normalize_L2 env e in
                 if length (index srv) = 0 then (Inr (Results []), srv)
                 else
                   (case index_search env (index srv) query_embedding k of
                      None \<Rightarrow> (Inl (ServerError SearchError), srv)
                    | Some found \<Rightarrow>
                        (case search_loop (state srv) found of
                           Inl x \<Rightarrow> (Inl (ServerError x), srv)
                         | Inr rs \<Rightarrow> (Inr (Results rs), srv)))))"

text \<open>
  \<^verbatim>\<open>DELETE /index/document/<doc_id>\<close>; the id is the string of the URL. The vectors
  of the rebuilt index are gathered from the cache in the order of the updated
  \<^verbatim>\<open>id_list\<close>; an id without a cached vector raises \<^verbatim>\<open>KeyError\<close>.
\<close>

fun gather :: "(ident \<times> 'v) list \<Rightarrow> ident list \<Rightarrow> exn + 'v list" where
  "gather cache [] = Inr []"
| "gather cache (i # ids) =
     (case map_of cache i of
        None \<Rightarrow> Inl (KeyError (key_text i))
      | Some v \<Rightarrow>
          (case gather cache ids of
             Inl e \<Rightarrow> Inl e
           | Inr vs \<Rightarrow> Inr (v # vs)))"

definition delete_document ::
  "'v server \<Rightarrow> string \<Rightarrow> (error + 'd response) \<times> 'v server" where
  "delete_document srv name =
     (let doc_id = Str name in
      if map_of (documents (state srv)) doc_id = None then (Inl NotFound, srv)
      else
        let st1 = (state srv)\<lparr>documents := AList.delete doc_id (documents (state srv))\<rparr>;
            srv1 = srv\<lparr>state := st1\<rparr>
        in
          if doc_id \<notin> set (id_list st1) then (Inl (ServerError ValueError), srv1)
          else
            let st2 = st1\<lparr>id_list := remove1 doc_id (id_list st1)\<rparr>;
                srv2 = srv1\<lparr>state := st2\<rparr>
            in
              if map_of (embeddings st2) doc_id = None
              then (Inl (ServerError (KeyError name)), srv2)
              else
                let st3 = st2\<lparr>embeddings := AList.delete doc_id (embeddings st2)\<rparr>;
                    srv3 = srv2\<lparr>state := st3, index := []\<rparr>
                in
                  if id_list st3 \<noteq> [] then
                    (case gather (embeddings st3) (id_list st3) of
                       Inl e \<Rightarrow> (Inl (ServerError e), srv3)
                     | Inr vectors \<Rightarrow> finish Deleted (srv3\<lparr>index := vectors\<rparr>))
                  else finish Deleted srv3)"

text \<open>
  \<^verbatim>\<open>POST /index/clear\<close>. The handler has no \<^verbatim>\<open>try\<close>: an exception of
  \<^verbatim>\<open>save_state\<close> leaves it and the framework answers 500.
\<close>

definition clear_index :: "'v server \<Rightarrow> (error + 'd response) \<times> 'v server" where
  "clear_index srv = finish Cleared (srv\<lparr>index := [], state := empty_state\<rparr>)"

text \<open>
  \<^verbatim>\<open>GET /index/documents\<close>. \<^verbatim>\<open>meta.get\<close> exists only when the stored metadata is a JSON
  object; on any other value the attribute lookup raises and the request fails.
\<close>

definition json_get :: "(string \<times> json) list \<Rightarrow> string \<Rightarrow> json \<Rightarrow> json" where
  "json_get items k dflt = (case map_of items k of None \<Rightarrow> dflt | Some v \<Rightarrow> v)"

definition view_of :: "ident \<Rightarrow> doc \<Rightarrow> doc_view option" where
  "view_of doc_id d =
     (case doc_metadata d of
        JObj meta \<Rightarrow>
          Some \<lparr>view_id = doc_id,
                title = json_get meta ''title'' (JStr ''Untitled''),
                content = json_get meta ''content'' (JStr (doc_text d)),
                category = json_get meta ''category'' (JStr ''General''),
                createdBy = json_get meta ''createdBy'' (JStr ''System'')\<rparr>
      | _ \<Rightarrow> None)"

fun get_documents_loop :: "(ident \<times> doc) list \<Rightarrow> doc_view list option" where
  "get_documents_loop [] = Some []"
| "get_documents_loop ((doc_id, d) # rest) =
     (case view_of doc_id d of
        None \<Rightarrow> None
      | Some v \<Rightarrow>
          (case get_documents_loop rest of
             None \<Rightarrow> None
           | Some vs \<Rightarrow> Some (v # vs)))"

definition get_documents :: "'v server \<Rightarrow> doc_view list option" where
  "get_documents srv = get_documents_loop (documents (state srv))"

text \<open>\<^verbatim>\<open>GET /index/stats\<close>: the row count of the index and \<^verbatim>\<open>EMBEDDING_DIM\<close>.\<close>

definition EMBEDDING_DIM :: nat where
  "EMBEDDING_DIM = 384"

definition stats :: "'v server \<Rightarrow> nat \<times> nat" where
  "stats srv = (length (index srv), EMBEDDING_DIM)"

section \<open>Sequences of requests\<close>

text \<open>A request to one of the mutating or searching routes, and the handler it reaches.\<close>

datatype request =
    Add doc_request
  | AddBatch "doc_request list"
  | Search search_request
  | Delete string
  | Clear

definition handle ::
  "('v, 'd) env \<Rightarrow> 'v server \<Rightarrow> request \<Rightarrow> (error + 'd response) \<times> 'v server" where
  "handle env srv rq =
     (case rq of
        Add d \<Rightarrow> add_document env srv d
      | AddBatch ds \<Rightarrow> add_documents_batch env srv ds
      | Search q \<Rightarrow> search env srv q
      | Delete doc_id \<Rightarrow> delete_document srv doc_id
      | Clear \<Rightarrow> clear_index srv)"

text \<open>The process after a sequence of requests, served one after the other.\<close>

fun run :: "('v, 'd) env \<Rightarrow> 'v server \<Rightarrow> request list \<Rightarrow> 'v server" where
  "run env srv [] = srv"
| "run env srv (rq # rqs) = run env (snd (handle env srv rq)) rqs"

text \<open>
  The process right after \<^verbatim>\<open>init_faiss\<close> found no files: an empty index, an empty
  state, and a data directory that can be written.
\<close>

definition fresh :: "'v server" where
  "fresh = \<lparr>index = [], state = empty_state, index_file = Absent, state_file = Absent,
            index_writable = True, state_writable = True, state_truncates = True\<rparr>"

text \<open>
  Concrete collaborators for the examples: vectors and distances are natural numbers,
  the encoder returns the length of the framed text, normalisation leaves a vector as
  it is, and the index search reports row 0 and the padding label \<open>- 1\<close>.
\<close>

definition example_env :: "(nat, nat) env" where
  "example_env =
     \<lparr>encode = (\<lambda>s. Some (length s)), normalize_L2 = (\<lambda>v. v),
      index_search = (\<lambda>rows q k. Some [(0, 0), (- 1, 0)])\<rparr>"

text \<open>The same collaborators with an encoder that raises on every text.\<close>

definition failing_env :: "(nat, nat) env" where
  "failing_env = example_env\<lparr>encode := (\<lambda>s. None)\<rparr>"

text \<open>A document request with the given id and text and no metadata field.\<close>

definition plain_doc :: "string \<Rightarrow> string \<Rightarrow> doc_request" where
  "plain_doc i t = \<lparr>req_id = Some (Str i), req_text = Some t, req_metadata = None\<rparr>"

text \<open>
  The cross-entity invariant that the state dictionary is meant to keep: every id
  occurs once in the row order, the documents and the cache have exactly the ids of the
  row order as their keys, and row \<open>i\<close> of the index is the cached vector of the
  \<open>i\<close>-th id of the row order.
\<close>

definition consistent :: "'v server \<Rightarrow> bool" where
  "consistent srv \<longleftrightarrow>
     distinct (id_list (state srv)) \<and>
     distinct (map fst (documents (state srv))) \<and>
     distinct (map fst (embeddings (state srv))) \<and>
     set (id_list (state srv)) = fst ` set (documents (state srv)) \<and>
     set (id_list (state srv)) = fst ` set (embeddings (state srv)) \<and>
     gather (embeddings (state srv)) (id_list (state srv)) = Inr (index srv)"






section \<open>Ids\<close>

lemma truthy_simps [simp]:
  "truthy (Str s) = (s \<noteq> [])"
  "truthy (Num n) = (n \<noteq> 0)"
  by (simp_all add: truthy_def)

lemma key_text_Str [simp]: "key_text (Str s) = s"
  by (simp add: key_text_def)

section \<open>Persistence and the response of a handler\<close>

lemma save_state_state [simp]: "state (snd (save_state srv)) = state srv"
  by (simp add: save_state_def Let_def)

lemma save_state_index [simp]: "index (snd (save_state srv)) = index srv"
  by (simp add: save_state_def Let_def)

lemma finish_state [simp]: "state (snd (finish ok srv)) = state srv"
  by (simp add: finish_def save_state_def Let_def)

lemma finish_index [simp]: "index (snd (finish ok srv)) = index srv"
  by (simp add: finish_def save_state_def Let_def)

lemma fst_finish:
  "fst (finish ok srv) =
     (if index_writable srv \<and> state_writable srv then Inr ok else Inl (ServerError IOError))"
  by (simp add: finish_def save_state_def Let_def)

section \<open>Input validation of add\<close>

text \<open>
  C7. Whenever the id or the text of an add request is missing or empty (an empty string;
  for an id also the number zero, which Python's \<^verbatim>\<open>not\<close> treats alike), the handler
  answers \<open>InvalidInput\<close> and the process is exactly as before: the index rows, the
  documents, the row order, the cache and both files. The answer is the same for every
  encoder, so the encoder is not consulted.
\<close>

theorem add_document_invalid_input:
  assumes "req_id data = None \<or> req_id data = Some (Str []) \<or> req_id data = Some (Num 0) \<or>
           req_text data = None \<or> req_text data = Some []"
  shows "add_document env srv data = (Inl InvalidInput, srv)"
  using assms by (auto simp: add_document_def truthy_def Let_def split: option.splits)

text \<open>An add request with an empty id, on the fresh process.\<close>

theorem add_document_invalid_input_witness:
  "req_id (plain_doc [] ''cats'') = Some (Str []) \<and>
   add_document example_env fresh (plain_doc [] ''cats'') = (Inl InvalidInput, fresh)"
  using add_document_invalid_input [of "plain_doc [] ''cats''" example_env fresh]
  by (simp add: plain_doc_def)

section \<open>A batch whose texts cannot be encoded\<close>

lemma batch_texts_None_iff:
  "batch_texts docs = None \<longleftrightarrow> (\<exists>d\<in>set docs. req_text d = None)"
  by (induction docs) (auto split: option.splits)

lemma batch_texts_Some:
  "batch_texts docs = Some ts \<Longrightarrow> ts = map (\<lambda>d. ''passage: '' @ the (req_text d)) docs"
  by (induction docs arbitrary: ts) (auto split: option.splits)

lemma encode_all_None_iff:
  "encode_all env ts = None \<longleftrightarrow> (\<exists>t\<in>set ts. encode env t = None)"
  by (induction ts) (auto split: option.splits)

text \<open>
  C6. For a non-empty batch in which some document has no text, or has a text that the
  encoder fails on, \<^verbatim>\<open>add_documents_batch\<close> answers with a server error and the
  process is exactly as before: no row was appended to the index, and the documents,
  the row order and the cache are unchanged.
\<close>

theorem add_documents_batch_encoding_fails:
  assumes "docs \<noteq> []"
    and "\<exists>d\<in>set docs. req_text d = None \<or>
           (\<exists>t. req_text d = Some t \<and> encode env (''passage: '' @ t) = None)"
  shows "\<exists>e. add_documents_batch env srv docs = (Inl (ServerError e), srv)"
proof (cases "batch_texts docs")
  case None
  with assms(1) show ?thesis by (simp add: add_documents_batch_def)
next
  case (Some ts)
  then have no_missing: "\<forall>d\<in>set docs. req_text d \<noteq> None"
    using batch_texts_None_iff [of docs] by auto
  from assms(2) no_missing obtain d t where d: "d \<in> set docs" "req_text d = Some t"
    "encode env (''passage: '' @ t) = None" by auto
  from Some have "ts = map (\<lambda>d. ''passage: '' @ the (req_text d)) docs"
    by (rule batch_texts_Some)
  with d have "''passage: '' @ t \<in> set ts" by force
  with d(3) have "encode_all env ts = None"
    using encode_all_None_iff [of env ts] by blast
  with Some assms(1) show ?thesis by (simp add: add_documents_batch_def)
qed

text \<open>
  On the fresh process: a batch of two documents, the second without a text (the first
  document is not stored either), and a batch of one document with an encoder that
  raises.
\<close>

theorem add_documents_batch_encoding_fails_witness:
  "[plain_doc ''a'' ''cats'', \<lparr>req_id = Some (Str ''b''), req_text = None, req_metadata = None\<rparr>] \<noteq> [] \<and>
   req_text \<lparr>req_id = Some (Str ''b''), req_text = None, req_metadata = None\<rparr> = None \<and>
   (\<exists>e. add_documents_batch example_env fresh
          [plain_doc ''a'' ''cats'', \<lparr>req_id = Some (Str ''b''), req_text = None, req_metadata = None\<rparr>]
        = (Inl (ServerError e), fresh)) \<and>
   [plain_doc ''a'' ''cats''] \<noteq> [] \<and>
   req_text (plain_doc ''a'' ''cats'') = Some ''cats'' \<and>
   encode failing_env (''passage: '' @ ''cats'') = None \<and>
   (\<exists>e. add_documents_batch failing_env fresh [plain_doc ''a'' ''cats'']
        = (Inl (ServerError e), fresh))"
  using add_documents_batch_encoding_fails
    [of "[plain_doc ''a'' ''cats'', \<lparr>req_id = Some (Str ''b''), req_text = None, req_metadata = None\<rparr>]"
        example_env fresh]
    add_documents_batch_encoding_fails [of "[plain_doc ''a'' ''cats'']" failing_env fresh]
  by (simp add: plain_doc_def failing_env_def example_env_def)

section \<open>Searching\<close>

lemma search_frame: "snd (search env srv data) = srv"
  by (simp add: search_def Let_def split: option.splits sum.splits)


text \<open>
  C8. A search with a non-empty query on an index without rows answers with the empty
  result list, whatever \<^verbatim>\<open>top_k\<close> is, and leaves the process as it was. The handler
  encodes the query before it looks at the row count, so the statement is about a query
  that the encoder returns a vector for.
\<close>

theorem search_empty_index:
  assumes "q \<noteq> []" and "encode env (''query: '' @ q) = Some v" and "index srv = []"
  shows "search env srv \<lparr>query = Some q, top_k = k\<rparr> = (Inr (Results []), srv)"
  using assms by (simp add: search_def Let_def)

theorem search_empty_index_witness:
  "''feline pets'' \<noteq> [] \<and> encode example_env (''query: '' @ ''feline pets'') = Some 18 \<and>
   index (fresh :: nat server) = [] \<and>
   search example_env fresh \<lparr>query = Some ''feline pets'', top_k = Some 2\<rparr>
     = (Inr (Results []), fresh)"
  using search_empty_index [of "''feline pets''" example_env 18 fresh "Some 2"]
  by (simp add: example_env_def fresh_def)

section \<open>Adding a document\<close>

lemma store_index_fields:
  "documents (store i t m e st) = AList.update i \<lparr>doc_text = t, doc_metadata = m\<rparr> (documents st)"
  "id_list (store i t m e st) = id_list st @ [i]"
  "embeddings (store i t m e st) = AList.update i e (embeddings st)"
  by (simp_all add: store_def Let_def)

lemma update_keys_present:
  "k \<in> fst ` set al \<Longrightarrow> map fst (AList.update k v al) = map fst al"
  by (simp add: update_keys)

lemma add_document_accepted:
  assumes "truthy doc_id" and "txt \<noteq> []" and "encode env (''passage: '' @ txt) = Some e"
  shows "add_document env srv \<lparr>req_id = Some doc_id, req_text = Some txt, req_metadata = m\<rparr> =
           finish (Added doc_id)
             (srv\<lparr>index := index srv @ [normalize_L2 env e],
                  state := store doc_id txt (metadata_or_empty m) (normalize_L2 env e) (state srv)\<rparr>)"
  using assms by (simp add: add_document_def Let_def)

text \<open>
  C4. Adding a document under an id that the state already holds (in the row order, the
  documents and the cache), with a non-empty text that the encoder returns a vector
  for: the index gets one more row, the normalised vector, at its end; the row order
  gets one more entry equal to the id, which now occurs at least twice; the documents
  and the cache keep their keys and have the entry of the id overwritten in place. So
  the id has two rows and two row-order entries for one document. This holds whether or
  not the snapshot can be written afterwards.
\<close>

theorem add_document_existing_id:
  assumes "truthy doc_id" and "txt \<noteq> []" and "encode env (''passage: '' @ txt) = Some e"
    and "doc_id \<in> set (id_list (state srv))"
    and "doc_id \<in> fst ` set (documents (state srv))"
    and "doc_id \<in> fst ` set (embeddings (state srv))"
  shows "let srv' = snd (add_document env srv
                     \<lparr>req_id = Some doc_id, req_text = Some txt, req_metadata = m\<rparr>) in
     index srv' = index srv @ [normalize_L2 env e] \<and>
     id_list (state srv') = id_list (state srv) @ [doc_id] \<and>
     count_list (id_list (state srv')) doc_id = count_list (id_list (state srv)) doc_id + 1 \<and>
     2 \<le> count_list (id_list (state srv')) doc_id \<and>
     map fst (documents (state srv')) = map fst (documents (state srv)) \<and>
     map_of (documents (state srv')) doc_id =
       Some \<lparr>doc_text = txt, doc_metadata = metadata_or_empty m\<rparr> \<and>
     map fst (embeddings (state srv')) = map fst (embeddings (state srv)) \<and>
     map_of (embeddings (state srv')) doc_id = Some (normalize_L2 env e)"
proof -
  have "count_list (id_list (state srv)) doc_id \<noteq> 0"
    using assms(4) by (simp add: count_list_0_iff)
  then show ?thesis
    using assms
    by (simp add: add_document_accepted [OF assms(1-3)] Let_def store_index_fields
        update_keys_present update_conv')
qed

text \<open>The second add of the id \<open>a\<close> on a process that already stores it.\<close>

theorem add_document_existing_id_witness:
  "truthy (Str ''a'') \<and> ''cats'' \<noteq> [] \<and> encode example_env (''passage: '' @ ''cats'') = Some 13 \<and>
   Str ''a'' \<in> set (id_list (state (run example_env fresh [Add (plain_doc ''a'' ''dogs'')]))) \<and>
   Str ''a'' \<in> fst ` set (documents (state (run example_env fresh [Add (plain_doc ''a'' ''dogs'')]))) \<and>
   Str ''a'' \<in> fst ` set (embeddings (state (run example_env fresh [Add (plain_doc ''a'' ''dogs'')]))) \<and>
   index (snd (add_document example_env (run example_env fresh [Add (plain_doc ''a'' ''dogs'')])
            (plain_doc ''a'' ''cats''))) = [13, 13] \<and>
   id_list (state (snd (add_document example_env
            (run example_env fresh [Add (plain_doc ''a'' ''dogs'')])
            (plain_doc ''a'' ''cats'')))) = [Str ''a'', Str ''a''] \<and>
   documents (state (snd (add_document example_env
            (run example_env fresh [Add (plain_doc ''a'' ''dogs'')])
            (plain_doc ''a'' ''cats'')))) = [(Str ''a'', \<lparr>doc_text = ''cats'', doc_metadata = JObj []\<rparr>)] \<and>
   embeddings (state (snd (add_document example_env
            (run example_env fresh [Add (plain_doc ''a'' ''dogs'')])
            (plain_doc ''a'' ''cats'')))) = [(Str ''a'', 13)]"
  using add_document_existing_id
    [of "Str ''a''" "''cats''" example_env 13
        "run example_env fresh [Add (plain_doc ''a'' ''dogs'')]" None]
  by (simp add: example_env_def fresh_def plain_doc_def handle_def add_document_def finish_def
      save_state_def store_def empty_state_def metadata_or_empty_def Let_def)

section \<open>Documents added without metadata\<close>

lemma encode_all_length: "encode_all env ts = Some vs \<Longrightarrow> length vs = length ts"
  by (induction ts arbitrary: vs) (auto split: option.splits)

lemma encode_all_Some_iff:
  "(\<exists>vs. encode_all env ts = Some vs) \<longleftrightarrow> (\<forall>t\<in>set ts. encode env t \<noteq> None)"
  using encode_all_None_iff [of env ts] by auto

lemma batch_loop_no_exception:
  "\<forall>p\<in>set l. req_id (fst p) \<noteq> None \<and> req_text (fst p) \<noteq> None \<Longrightarrow>
   fst (batch_loop l st) = None"
  by (induction l st rule: batch_loop.induct) (auto split: option.splits)

lemma batch_loop_id_list:
  "\<forall>p\<in>set l. req_id (fst p) \<noteq> None \<and> req_text (fst p) \<noteq> None \<Longrightarrow>
   id_list (snd (batch_loop l st)) = id_list st @ map (\<lambda>p. the (req_id (fst p))) l"
  by (induction l st rule: batch_loop.induct) (auto simp: store_index_fields split: option.splits)

lemma batch_loop_metadata:
  assumes "\<forall>p\<in>set l. req_id (fst p) \<noteq> None \<and> req_text (fst p) \<noteq> None"
    and "\<forall>p\<in>set l. req_id (fst p) = Some x \<longrightarrow> req_metadata (fst p) = None"
    and "(\<exists>p\<in>set l. req_id (fst p) = Some x) \<or>
         (\<exists>dd. map_of (documents st) x = Some dd \<and> doc_metadata dd = JObj [])"
  shows "\<exists>dd. map_of (documents (snd (batch_loop l st))) x = Some dd \<and> doc_metadata dd = JObj []"
  using assms
proof (induction l st rule: batch_loop.induct)
  case (1 st)
  then show ?case by simp
next
  case (2 d embedding rest st)
  from "2.prems"(1) obtain i t where it: "req_id d = Some i" "req_text d = Some t" by auto
  let ?st = "store i t (metadata_or_empty (req_metadata d)) embedding st"
  have step: "batch_loop ((d, embedding) # rest) st = batch_loop rest ?st"
    using it by simp
  have "(\<exists>p\<in>set rest. req_id (fst p) = Some x) \<or>
        (\<exists>dd. map_of (documents ?st) x = Some dd \<and> doc_metadata dd = JObj [])"
  proof (cases "i = x")
    case True
    with "2.prems"(2) it have "req_metadata d = None" by simp
    with True show ?thesis
      by (simp add: store_index_fields update_conv' metadata_or_empty_def)
  next
    case False
    with "2.prems"(3) it show ?thesis
      by (auto simp: store_index_fields update_conv')
  qed
  with "2.IH" [OF it] "2.prems"(1,2) show ?case
    unfolding step by simp
qed

lemma search_loop_reports_document:
  "search_loop st found = Inr rs \<Longrightarrow> h \<in> set rs \<Longrightarrow>
   \<exists>d. map_of (documents st) (hit_id h) = Some d \<and>
       hit_text h = doc_text d \<and> hit_metadata h = doc_metadata d"
proof (induction found arbitrary: rs)
  case Nil
  then show ?case by simp
next
  case (Cons p rest)
  obtain idx dst where p: "p = (idx, dst)" by (cases p)
  show ?case
  proof (cases "idx = - 1 \<or> idx \<ge> int (length (id_list st))")
    case True
    with Cons.prems(1) p have "search_loop st rest = Inr rs" by simp
    with Cons.IH Cons.prems(2) show ?thesis by blast
  next
    case False
    with Cons.prems(1) p obtain doc_id d rs' where
      parts: "map_of (documents st) doc_id = Some d" "search_loop st rest = Inr rs'"
        "rs = \<lparr>hit_id = doc_id, score = dst, hit_text = doc_text d,
               hit_metadata = doc_metadata d\<rparr> # rs'"
      by (simp split: sum.splits option.splits)
    show ?thesis
    proof (cases "h \<in> set rs'")
      case True
      with Cons.IH parts(2) show ?thesis by blast
    next
      case False
      with Cons.prems(2) parts(3)
      have "h = \<lparr>hit_id = doc_id, score = dst, hit_text = doc_text d,
                  hit_metadata = doc_metadata d\<rparr>" by simp
      with parts(1) show ?thesis by simp
    qed
  qed
qed

lemma search_results_from_loop:
  assumes "fst (search env srv data) = Inr (Results rs)"
  shows "rs = [] \<or> (\<exists>found. search_loop (state srv) found = Inr rs)"
proof (cases "query data")
  case None
  with assms show ?thesis by (simp add: search_def Let_def)
next
  case (Some q)
  note q = Some
  show ?thesis
  proof (cases "encode env (''query: '' @ q)")
    case None
    with assms q show ?thesis by (simp add: search_def Let_def split: if_splits)
  next
    case (Some e)
    note e = Some
    show ?thesis
    proof (cases "index_search env (index srv) (normalize_L2 env e)
                    (case top_k data of None \<Rightarrow> 5 | Some n \<Rightarrow> n)")
      case None
      with assms q e show ?thesis by (simp add: search_def Let_def split: if_splits)
    next
      case (Some found)
      with assms q e show ?thesis
        by (cases "search_loop (state srv) found")
          (auto simp add: search_def Let_def split: if_splits)
    qed
  qed
qed

lemma search_reports_document:
  assumes "fst (search env srv data) = Inr (Results rs)" and "h \<in> set rs"
  shows "\<exists>d. map_of (documents (state srv)) (hit_id h) = Some d \<and>
       hit_text h = doc_text d \<and> hit_metadata h = doc_metadata d"
proof -
  from search_results_from_loop [OF assms(1)] assms(2)
  obtain found where "search_loop (state srv) found = Inr rs" by auto
  then show ?thesis using assms(2) by (rule search_loop_reports_document)
qed

lemma add_documents_batch_accepted:
  assumes "docs \<noteq> []"
    and "\<forall>d\<in>set docs. \<exists>i t. req_id d = Some i \<and> req_text d = Some t \<and>
           encode env (''passage: '' @ t) \<noteq> None"
  shows "\<exists>es. length es = length docs \<and>
           add_documents_batch env srv docs =
             finish (BatchAdded (length docs) (length (id_list (state srv)) + length docs))
               (srv\<lparr>index := index srv @ es,
                    state := snd (batch_loop (zip docs es) (state srv))\<rparr>)"
proof -
  from assms(2) have "\<not> (\<exists>d\<in>set docs. req_text d = None)" by fastforce
  then obtain ts where ts: "batch_texts docs = Some ts"
    using batch_texts_None_iff [of docs] by auto
  then have ts_eq: "ts = map (\<lambda>d. ''passage: '' @ the (req_text d)) docs"
    by (rule batch_texts_Some)
  have "\<forall>t\<in>set ts. encode env t \<noteq> None"
    unfolding ts_eq using assms(2) by fastforce
  then obtain vs where vs: "encode_all env ts = Some vs"
    using encode_all_Some_iff [of env ts] by blast
  let ?es = "map (normalize_L2 env) vs"
  have len: "length ?es = length docs"
    using encode_all_length [OF vs] ts_eq by simp
  have ok: "\<forall>p\<in>set (zip docs ?es). req_id (fst p) \<noteq> None \<and> req_text (fst p) \<noteq> None"
  proof
    fix p assume "p \<in> set (zip docs ?es)"
    then have "fst p \<in> set docs"
      using set_zip_leftD [of "fst p" "snd p" docs ?es] by simp
    with assms(2) show "req_id (fst p) \<noteq> None \<and> req_text (fst p) \<noteq> None" by fastforce
  qed
  have noexn: "fst (batch_loop (zip docs ?es) (state srv)) = None"
    using ok by (rule batch_loop_no_exception)
  have ids: "length (id_list (snd (batch_loop (zip docs ?es) (state srv)))) =
               length (id_list (state srv)) + length docs"
    using batch_loop_id_list [OF ok, of "state srv"] len by simp
  obtain st' where st': "batch_loop (zip docs ?es) (state srv) = (None, st')"
    using noexn by (cases "batch_loop (zip docs ?es) (state srv)") auto
  have "add_documents_batch env srv docs =
          finish (BatchAdded (length docs) (length (id_list (state srv)) + length docs))
            (srv\<lparr>index := index srv @ ?es,
                 state := snd (batch_loop (zip docs ?es) (state srv))\<rparr>)"
    using assms(1) ts vs st' ids by (simp add: add_documents_batch_def Let_def)
  with len show ?thesis by blast
qed


lemma view_of_empty_metadata:
  "view_of doc_id \<lparr>doc_text = txt, doc_metadata = JObj []\<rparr> =
     Some \<lparr>view_id = doc_id, title = JStr ''Untitled'', content = JStr txt,
           category = JStr ''General'', createdBy = JStr ''System''\<rparr>"
  by (simp add: view_of_def json_get_def)

lemma add_document_omitted_metadata:
  assumes "truthy doc_id" and "txt \<noteq> []" and "encode env (''passage: '' @ txt) \<noteq> None"
  shows "fst (add_document env srv \<lparr>req_id = Some doc_id, req_text = Some txt, req_metadata = None\<rparr>)
           = (if index_writable srv \<and> state_writable srv then Inr (Added doc_id)
              else Inl (ServerError IOError)) \<and>
         map_of (documents (state (snd (add_document env srv
             \<lparr>req_id = Some doc_id, req_text = Some txt, req_metadata = None\<rparr>)))) doc_id
           = Some \<lparr>doc_text = txt, doc_metadata = JObj []\<rparr>"
proof -
  from assms(3) obtain e where e: "encode env (''passage: '' @ txt) = Some e" by auto
  show ?thesis
    by (simp add: add_document_accepted [OF assms(1,2) e] fst_finish store_index_fields
        update_conv' metadata_or_empty_def)
qed

lemma add_documents_batch_omitted_metadata:
  assumes "docs \<noteq> []"
    and "\<forall>d\<in>set docs. \<exists>i t. req_id d = Some i \<and> req_text d = Some t \<and>
           encode env (''passage: '' @ t) \<noteq> None"
    and "\<exists>d\<in>set docs. req_id d = Some doc_id"
    and "\<forall>d\<in>set docs. req_id d = Some doc_id \<longrightarrow> req_metadata d = None"
  shows "fst (add_documents_batch env srv docs)
           = (if index_writable srv \<and> state_writable srv
              then Inr (BatchAdded (length docs) (length (id_list (state srv)) + length docs))
              else Inl (ServerError IOError)) \<and>
         (\<exists>dd. map_of (documents (state (snd (add_documents_batch env srv docs)))) doc_id = Some dd \<and>
               doc_metadata dd = JObj [])"
proof -
  from add_documents_batch_accepted [OF assms(1,2), of srv]
  obtain es where len: "length es = length docs"
    and eq: "add_documents_batch env srv docs =
             finish (BatchAdded (length docs) (length (id_list (state srv)) + length docs))
               (srv\<lparr>index := index srv @ es,
                    state := snd (batch_loop (zip docs es) (state srv))\<rparr>)"
    by blast
  have "set (map fst (zip docs es)) = set docs"
    using len by simp
  then have fsts: "fst ` set (zip docs es) = set docs"
    by simp
  have mem: "fst p \<in> set docs" if "p \<in> set (zip docs es)" for p
  proof -
    from that have "fst p \<in> fst ` set (zip docs es)" by (rule imageI)
    with fsts show ?thesis by simp
  qed
  have ok: "\<forall>p\<in>set (zip docs es). req_id (fst p) \<noteq> None \<and> req_text (fst p) \<noteq> None"
  proof
    fix p assume "p \<in> set (zip docs es)"
    then have "fst p \<in> set docs" by (rule mem)
    with assms(2) obtain i t where "req_id (fst p) = Some i" "req_text (fst p) = Some t"
      by blast
    then show "req_id (fst p) \<noteq> None \<and> req_text (fst p) \<noteq> None" by simp
  qed
  have only: "\<forall>p\<in>set (zip docs es). req_id (fst p) = Some doc_id \<longrightarrow> req_metadata (fst p) = None"
  proof
    fix p assume "p \<in> set (zip docs es)"
    then have "fst p \<in> set docs" by (rule mem)
    with assms(4) show "req_id (fst p) = Some doc_id \<longrightarrow> req_metadata (fst p) = None"
      by blast
  qed
  have some: "\<exists>p\<in>set (zip docs es). req_id (fst p) = Some doc_id"
  proof -
    from assms(3) obtain d where d: "d \<in> set docs" "req_id d = Some doc_id" by blast
    from d(1) fsts have "d \<in> fst ` set (zip docs es)" by simp
    then obtain p where "p \<in> set (zip docs es)" "d = fst p" by (rule imageE)
    with d(2) show ?thesis by blast
  qed
  have "\<exists>dd. map_of (documents (snd (batch_loop (zip docs es) (state srv)))) doc_id = Some dd \<and>
             doc_metadata dd = JObj []"
    using batch_loop_metadata [OF ok only] some by blast
  then show ?thesis
    unfolding eq by (simp add: fst_finish)
qed

text \<open>
  The listing. It succeeds exactly when the metadata of every stored document is a JSON
  object, and then it has the view of every stored document.
\<close>

lemma view_of_None_iff: "(view_of k d = None) = (\<nexists>m. doc_metadata d = JObj m)"
  by (cases "doc_metadata d") (simp_all add: view_of_def)

lemma get_documents_loop_defined:
  "(\<exists>vs. get_documents_loop ds = Some vs) = (\<forall>p\<in>set ds. \<exists>m. doc_metadata (snd p) = JObj m)"
proof (induction ds)
  case Nil
  show ?case by simp
next
  case (Cons p ds)
  obtain k d where p: "p = (k, d)" by (cases p)
  show ?case
  proof (cases "view_of k d")
    case None
    then show ?thesis using view_of_None_iff [of k d] by (simp add: p)
  next
    case (Some v)
    then have "\<exists>m. doc_metadata d = JObj m" using view_of_None_iff [of k d] by simp
    with Cons Some show ?thesis
      by (cases "get_documents_loop ds") (simp_all add: p)
  qed
qed

lemma get_documents_loop_member:
  "get_documents_loop ds = Some vs \<Longrightarrow> (k, d) \<in> set ds \<Longrightarrow> view_of k d = Some v \<Longrightarrow> v \<in> set vs"
proof (induction ds arbitrary: vs)
  case Nil
  then show ?case by simp
next
  case (Cons p ds)
  obtain k' d' where p: "p = (k', d')" by (cases p)
  from Cons.prems(1) obtain v' vs' where v': "view_of k' d' = Some v'"
    and vs': "get_documents_loop ds = Some vs'" and vs: "vs = v' # vs'"
    by (auto simp: p split: option.splits)
  show ?case
  proof (cases "(k, d) = (k', d')")
    case True
    with v' Cons.prems(3) show ?thesis by (simp add: vs)
  next
    case False
    with Cons.prems(2) have "(k, d) \<in> set ds" by (auto simp: p)
    from Cons.IH [OF vs' this Cons.prems(3)] show ?thesis by (simp add: vs)
  qed
qed

lemma update_entries: "set (AList.update k v al) \<subseteq> insert (k, v) (set al)"
  by (induction al) auto

lemma store_listable:
  assumes "\<forall>p\<in>set (documents st). \<exists>m. doc_metadata (snd p) = JObj m"
    and "\<exists>m. metadata = JObj m"
  shows "\<forall>p\<in>set (documents (store i t metadata e st)). \<exists>m. doc_metadata (snd p) = JObj m"
proof
  fix p assume "p \<in> set (documents (store i t metadata e st))"
  then have "p \<in> set (AList.update i \<lparr>doc_text = t, doc_metadata = metadata\<rparr> (documents st))"
    by (simp add: store_index_fields)
  with update_entries have "p = (i, \<lparr>doc_text = t, doc_metadata = metadata\<rparr>) \<or> p \<in> set (documents st)"
    by fastforce
  then show "\<exists>m. doc_metadata (snd p) = JObj m"
  proof
    assume "p = (i, \<lparr>doc_text = t, doc_metadata = metadata\<rparr>)"
    with assms(2) show ?thesis by simp
  next
    assume "p \<in> set (documents st)"
    with assms(1) show ?thesis by (rule bspec)
  qed
qed

lemma batch_loop_listable:
  assumes "\<forall>p\<in>set l. req_metadata (fst p) = None \<or> (\<exists>m. req_metadata (fst p) = Some (JObj m))"
    and "\<forall>p\<in>set (documents st). \<exists>m. doc_metadata (snd p) = JObj m"
  shows "\<forall>p\<in>set (documents (snd (batch_loop l st))). \<exists>m. doc_metadata (snd p) = JObj m"
  using assms
proof (induction l st rule: batch_loop.induct)
  case (1 st)
  then show ?case by simp
next
  case (2 d embedding rest st)
  show ?case
  proof (cases "req_id d")
    case None
    with "2.prems"(2) show ?thesis by simp
  next
    case (Some i)
    note i = this
    show ?thesis
    proof (cases "req_text d")
      case None
      with i "2.prems"(2) show ?thesis by simp
    next
      case (Some t)
      from "2.prems"(1) have "req_metadata d = None \<or> (\<exists>m. req_metadata d = Some (JObj m))"
        by simp
      then have "\<exists>m. metadata_or_empty (req_metadata d) = JObj m"
        by (auto simp: metadata_or_empty_def)
      from store_listable [OF "2.prems"(2) this]
      have s: "\<forall>p\<in>set (documents (store i t (metadata_or_empty (req_metadata d)) embedding st)).
              \<exists>m. doc_metadata (snd p) = JObj m" .
      from "2.prems"(1)
      have r: "\<forall>p\<in>set rest. req_metadata (fst p) = None \<or> (\<exists>m. req_metadata (fst p) = Some (JObj m))"
        by simp
      have step: "batch_loop ((d, embedding) # rest) st =
          batch_loop rest (store i t (metadata_or_empty (req_metadata d)) embedding st)"
        using i Some by simp
      from "2.IH" [OF i Some r s] show ?thesis
        unfolding step .
    qed
  qed
qed

lemma add_document_listable:
  assumes "truthy doc_id" and "tx \<noteq> []" and "encode env (''passage: '' @ tx) \<noteq> None"
    and "\<exists>vs. get_documents srv = Some vs"
  shows "\<exists>vs. get_documents (snd (add_document env srv
           \<lparr>req_id = Some doc_id, req_text = Some tx, req_metadata = None\<rparr>)) = Some vs"
proof -
  from assms(3) obtain e where e: "encode env (''passage: '' @ tx) = Some e" by auto
  from assms(4) have l: "\<forall>p\<in>set (documents (state srv)). \<exists>m. doc_metadata (snd p) = JObj m"
    unfolding get_documents_def get_documents_loop_defined .
  have s: "\<forall>p\<in>set (documents (store doc_id tx (JObj []) (normalize_L2 env e) (state srv))).
          \<exists>m. doc_metadata (snd p) = JObj m"
    by (rule store_listable [OF l]) simp
  have st: "state (snd (add_document env srv
           \<lparr>req_id = Some doc_id, req_text = Some tx, req_metadata = None\<rparr>)) =
        store doc_id tx (JObj []) (normalize_L2 env e) (state srv)"
    by (simp add: add_document_accepted [OF assms(1,2) e] metadata_or_empty_def)
  show ?thesis
    unfolding get_documents_def get_documents_loop_defined st by (rule s)
qed

lemma add_documents_batch_listable:
  assumes "docs \<noteq> []"
    and "\<forall>d\<in>set docs. \<exists>i t. req_id d = Some i \<and> req_text d = Some t \<and>
           encode env (''passage: '' @ t) \<noteq> None"
    and "\<forall>d\<in>set docs. req_metadata d = None \<or> (\<exists>m. req_metadata d = Some (JObj m))"
    and "\<exists>vs. get_documents srv = Some vs"
  shows "\<exists>vs. get_documents (snd (add_documents_batch env srv docs)) = Some vs"
proof -
  from add_documents_batch_accepted [OF assms(1,2), of srv]
  obtain es where len: "length es = length docs"
    and eq: "add_documents_batch env srv docs =
             finish (BatchAdded (length docs) (length (id_list (state srv)) + length docs))
               (srv\<lparr>index := index srv @ es,
                    state := snd (batch_loop (zip docs es) (state srv))\<rparr>)"
    by blast
  have m: "\<forall>p\<in>set (zip docs es). req_metadata (fst p) = None \<or> (\<exists>m. req_metadata (fst p) = Some (JObj m))"
  proof
    fix p assume a: "p \<in> set (zip docs es)"
    obtain x y where p: "p = (x, y)" by (cases p)
    from a have "x \<in> set docs" unfolding p by (rule set_zip_leftD)
    with assms(3) show "req_metadata (fst p) = None \<or> (\<exists>m. req_metadata (fst p) = Some (JObj m))"
      unfolding p by simp
  qed
  from assms(4) have l: "\<forall>p\<in>set (documents (state srv)). \<exists>m. doc_metadata (snd p) = JObj m"
    unfolding get_documents_def get_documents_loop_defined .
  have st: "state (snd (add_documents_batch env srv docs)) = snd (batch_loop (zip docs es) (state srv))"
    unfolding eq by simp
  show ?thesis
    unfolding get_documents_def get_documents_loop_defined st
    by (rule batch_loop_listable [OF m l])
qed

lemma get_documents_default_view:
  assumes "get_documents srv = Some vs" and "map_of (documents (state srv)) doc_id = Some dd"
    and "doc_metadata dd = JObj []"
  shows "\<lparr>view_id = doc_id, title = JStr ''Untitled'', content = JStr (doc_text dd),
          category = JStr ''General'', createdBy = JStr ''System''\<rparr> \<in> set vs"
proof -
  from assms(2) have "(doc_id, dd) \<in> set (documents (state srv))" by (rule map_of_SomeD)
  moreover have "view_of doc_id dd = Some \<lparr>view_id = doc_id, title = JStr ''Untitled'',
      content = JStr (doc_text dd), category = JStr ''General'', createdBy = JStr ''System''\<rparr>"
    using assms(3) by (simp add: view_of_def json_get_def)
  ultimately show ?thesis
    using assms(1) unfolding get_documents_def by (rule get_documents_loop_member [rotated])
qed

text \<open>The four parts of the statement below, each on its own.\<close>

lemma omitted_metadata_add:
  "(truthy doc_id \<and> tx \<noteq> [] \<and> encode env (''passage: '' @ tx) \<noteq> None \<longrightarrow>
      fst (add_document env srv \<lparr>req_id = Some doc_id, req_text = Some tx, req_metadata = None\<rparr>)
        = (if index_writable srv \<and> state_writable srv then Inr (Added doc_id)
           else Inl (ServerError IOError)) \<and>
      map_of (documents (state (snd (add_document env srv
          \<lparr>req_id = Some doc_id, req_text = Some tx, req_metadata = None\<rparr>)))) doc_id
        = Some \<lparr>doc_text = tx, doc_metadata = JObj []\<rparr> \<and>
      ((\<exists>us. get_documents srv = Some us) \<longrightarrow>
        (\<exists>us. get_documents (snd (add_document env srv
            \<lparr>req_id = Some doc_id, req_text = Some tx, req_metadata = None\<rparr>)) = Some us \<and>
          \<lparr>view_id = doc_id, title = JStr ''Untitled'', content = JStr tx,
           category = JStr ''General'', createdBy = JStr ''System''\<rparr> \<in> set us)))"
proof (intro impI)
  let ?r = "add_document env srv \<lparr>req_id = Some doc_id, req_text = Some tx, req_metadata = None\<rparr>"
  assume "truthy doc_id \<and> tx \<noteq> [] \<and> encode env (''passage: '' @ tx) \<noteq> None"
  then have a: "truthy doc_id" "tx \<noteq> []" "encode env (''passage: '' @ tx) \<noteq> None"
    by simp_all
  note s = add_document_omitted_metadata [OF a, of srv]
  have l: "\<exists>us. get_documents (snd ?r) = Some us \<and>
          \<lparr>view_id = doc_id, title = JStr ''Untitled'', content = JStr tx,
           category = JStr ''General'', createdBy = JStr ''System''\<rparr> \<in> set us"
    if "\<exists>us. get_documents srv = Some us"
  proof -
    from add_document_listable [OF a that] obtain us where us: "get_documents (snd ?r) = Some us"
      by blast
    from get_documents_default_view [OF us conjunct2 [OF s]]
    have "\<lparr>view_id = doc_id, title = JStr ''Untitled'', content = JStr tx,
           category = JStr ''General'', createdBy = JStr ''System''\<rparr> \<in> set us"
      by simp
    with us show ?thesis by blast
  qed
  show "fst ?r = (if index_writable srv \<and> state_writable srv then Inr (Added doc_id)
           else Inl (ServerError IOError)) \<and>
      map_of (documents (state (snd ?r))) doc_id = Some \<lparr>doc_text = tx, doc_metadata = JObj []\<rparr> \<and>
      ((\<exists>us. get_documents srv = Some us) \<longrightarrow>
        (\<exists>us. get_documents (snd ?r) = Some us \<and>
          \<lparr>view_id = doc_id, title = JStr ''Untitled'', content = JStr tx,
           category = JStr ''General'', createdBy = JStr ''System''\<rparr> \<in> set us))"
    using s l by blast
qed

lemma omitted_metadata_batch:
  "(docs \<noteq> [] \<and>
    (\<forall>d\<in>set docs. \<exists>i t. req_id d = Some i \<and> req_text d = Some t \<and>
        encode env (''passage: '' @ t) \<noteq> None) \<and>
    (\<exists>d\<in>set docs. req_id d = Some doc_id) \<and>
    (\<forall>d\<in>set docs. req_id d = Some doc_id \<longrightarrow> req_metadata d = None) \<longrightarrow>
      fst (add_documents_batch env srv docs)
        = (if index_writable srv \<and> state_writable srv
           then Inr (BatchAdded (length docs) (length (id_list (state srv)) + length docs))
           else Inl (ServerError IOError)) \<and>
      (\<exists>dd. map_of (documents (state (snd (add_documents_batch env srv docs)))) doc_id = Some dd \<and>
            doc_metadata dd = JObj []) \<and>
      ((\<exists>us. get_documents srv = Some us) \<and>
       (\<forall>d\<in>set docs. req_metadata d = None \<or> (\<exists>m. req_metadata d = Some (JObj m))) \<longrightarrow>
        (\<exists>us dd. get_documents (snd (add_documents_batch env srv docs)) = Some us \<and>
          map_of (documents (state (snd (add_documents_batch env srv docs)))) doc_id = Some dd \<and>
          \<lparr>view_id = doc_id, title = JStr ''Untitled'', content = JStr (doc_text dd),
           category = JStr ''General'', createdBy = JStr ''System''\<rparr> \<in> set us)))"
proof (intro impI)
  let ?r = "add_documents_batch env srv docs"
  assume h: "docs \<noteq> [] \<and>
    (\<forall>d\<in>set docs. \<exists>i t. req_id d = Some i \<and> req_text d = Some t \<and>
        encode env (''passage: '' @ t) \<noteq> None) \<and>
    (\<exists>d\<in>set docs. req_id d = Some doc_id) \<and>
    (\<forall>d\<in>set docs. req_id d = Some doc_id \<longrightarrow> req_metadata d = None)"
  have b1: "docs \<noteq> []" using h by (rule conjunct1)
  have b2: "\<forall>d\<in>set docs. \<exists>i t. req_id d = Some i \<and> req_text d = Some t \<and>
        encode env (''passage: '' @ t) \<noteq> None"
    using h by (rule conjunct1 [OF conjunct2])
  have b3: "\<exists>d\<in>set docs. req_id d = Some doc_id"
    using h by (rule conjunct1 [OF conjunct2 [OF conjunct2]])
  have b4: "\<forall>d\<in>set docs. req_id d = Some doc_id \<longrightarrow> req_metadata d = None"
    using h by (rule conjunct2 [OF conjunct2 [OF conjunct2]])
  note s = add_documents_batch_omitted_metadata [OF b1 b2 b3 b4, of srv]
  from conjunct2 [OF s] obtain dd
    where dd: "map_of (documents (state (snd ?r))) doc_id = Some dd" "doc_metadata dd = JObj []"
    by blast
  have l: "\<exists>us dd. get_documents (snd ?r) = Some us \<and>
          map_of (documents (state (snd ?r))) doc_id = Some dd \<and>
          \<lparr>view_id = doc_id, title = JStr ''Untitled'', content = JStr (doc_text dd),
           category = JStr ''General'', createdBy = JStr ''System''\<rparr> \<in> set us"
    if c: "(\<exists>us. get_documents srv = Some us) \<and>
       (\<forall>d\<in>set docs. req_metadata d = None \<or> (\<exists>m. req_metadata d = Some (JObj m)))"
  proof -
    from add_documents_batch_listable [OF b1 b2 conjunct2 [OF c] conjunct1 [OF c]]
    obtain us where us: "get_documents (snd ?r) = Some us"
      by blast
    from get_documents_default_view [OF us dd] us dd(1) show ?thesis by blast
  qed
  show "fst ?r = (if index_writable srv \<and> state_writable srv
           then Inr (BatchAdded (length docs) (length (id_list (state srv)) + length docs))
           else Inl (ServerError IOError)) \<and>
      (\<exists>dd. map_of (documents (state (snd ?r))) doc_id = Some dd \<and> doc_metadata dd = JObj []) \<and>
      ((\<exists>us. get_documents srv = Some us) \<and>
       (\<forall>d\<in>set docs. req_metadata d = None \<or> (\<exists>m. req_metadata d = Some (JObj m))) \<longrightarrow>
        (\<exists>us dd. get_documents (snd ?r) = Some us \<and>
          map_of (documents (state (snd ?r))) doc_id = Some dd \<and>
          \<lparr>view_id = doc_id, title = JStr ''Untitled'', content = JStr (doc_text dd),
           category = JStr ''General'', createdBy = JStr ''System''\<rparr> \<in> set us))"
  proof (intro conjI impI)
    show "fst ?r = (if index_writable srv \<and> state_writable srv
           then Inr (BatchAdded (length docs) (length (id_list (state srv)) + length docs))
           else Inl (ServerError IOError))"
      by (rule conjunct1 [OF s])
    show "\<exists>dd. map_of (documents (state (snd ?r))) doc_id = Some dd \<and> doc_metadata dd = JObj []"
      by (rule conjunct2 [OF s])
    assume "(\<exists>us. get_documents srv = Some us) \<and>
       (\<forall>d\<in>set docs. req_metadata d = None \<or> (\<exists>m. req_metadata d = Some (JObj m)))"
    then show "\<exists>us dd. get_documents (snd ?r) = Some us \<and>
          map_of (documents (state (snd ?r))) doc_id = Some dd \<and>
          \<lparr>view_id = doc_id, title = JStr ''Untitled'', content = JStr (doc_text dd),
           category = JStr ''General'', createdBy = JStr ''System''\<rparr> \<in> set us"
      by (rule l)
  qed
qed

lemma omitted_metadata_search:
  "(fst (search env srv q) = Inr (Results rs) \<and> h \<in> set rs \<and>
    map_of (documents (state srv)) (hit_id h) = Some dd \<longrightarrow>
      hit_text h = doc_text dd \<and> hit_metadata h = doc_metadata dd)"
proof (intro impI)
  assume c: "fst (search env srv q) = Inr (Results rs) \<and> h \<in> set rs \<and>
    map_of (documents (state srv)) (hit_id h) = Some dd"
  then have "\<exists>d. map_of (documents (state srv)) (hit_id h) = Some d \<and>
       hit_text h = doc_text d \<and> hit_metadata h = doc_metadata d"
    using search_reports_document [of env srv q rs h] by simp
  with c show "hit_text h = doc_text dd \<and> hit_metadata h = doc_metadata dd" by auto
qed

lemma omitted_metadata_listing:
  "(get_documents srv = Some vs \<and> map_of (documents (state srv)) doc_id = Some dd' \<and>
    doc_metadata dd' = JObj [] \<longrightarrow>
      \<lparr>view_id = doc_id, title = JStr ''Untitled'', content = JStr (doc_text dd'),
       category = JStr ''General'', createdBy = JStr ''System''\<rparr> \<in> set vs)"
  using get_documents_default_view [of srv vs doc_id dd'] by blast

text \<open>
  C10, as the handlers have it. A document whose request omits the metadata field is
  stored with the empty JSON object as its metadata, by both handlers, and the request
  does not fail for it; a search reports the empty object, and the listing reports no
  metadata at all but the values it derives from it:
  \<^item> \<^verbatim>\<open>add_document\<close>, for a truthy id and a non-empty text that the encoder
    accepts, answers with success (with the write error when the snapshot cannot be
    written) and the documents hold the text with metadata \<open>JObj []\<close> under the id; if
    the listing succeeded before the request it succeeds after it, and has for the id
    the entry with the default title, category and author and the text as content;
  \<^item> \<^verbatim>\<open>add_documents_batch\<close>, for a batch whose entries all have an id and a text
    that the encoder accepts, answers likewise, and an id whose entries in the batch all
    omit the metadata is stored with metadata \<open>JObj []\<close>; if the listing succeeded
    before the request and every metadata of the batch is omitted or a JSON object, the
    listing succeeds after it with the default entry for the id;
  \<^item> every hit of a successful \<^verbatim>\<open>search\<close> reports the text and the metadata
    stored for its id, so \<open>JObj []\<close> for such a document;
  \<^item> a successful \<^verbatim>\<open>get_documents\<close> has, for every document stored with metadata
    \<open>JObj []\<close>, the entry with the id, the title \<open>Untitled\<close>, the text as content, the
    category \<open>General\<close> and the author \<open>System\<close>. An entry of the listing has these
    five fields and no metadata field.
\<close>

theorem omitted_metadata_stored_and_reported:
  "(truthy doc_id \<and> tx \<noteq> [] \<and> encode env (''passage: '' @ tx) \<noteq> None \<longrightarrow>
      fst (add_document env srv \<lparr>req_id = Some doc_id, req_text = Some tx, req_metadata = None\<rparr>)
        = (if index_writable srv \<and> state_writable srv then Inr (Added doc_id)
           else Inl (ServerError IOError)) \<and>
      map_of (documents (state (snd (add_document env srv
          \<lparr>req_id = Some doc_id, req_text = Some tx, req_metadata = None\<rparr>)))) doc_id
        = Some \<lparr>doc_text = tx, doc_metadata = JObj []\<rparr> \<and>
      ((\<exists>us. get_documents srv = Some us) \<longrightarrow>
        (\<exists>us. get_documents (snd (add_document env srv
            \<lparr>req_id = Some doc_id, req_text = Some tx, req_metadata = None\<rparr>)) = Some us \<and>
          \<lparr>view_id = doc_id, title = JStr ''Untitled'', content = JStr tx,
           category = JStr ''General'', createdBy = JStr ''System''\<rparr> \<in> set us))) \<and>
   (docs \<noteq> [] \<and>
    (\<forall>d\<in>set docs. \<exists>i t. req_id d = Some i \<and> req_text d = Some t \<and>
        encode env (''passage: '' @ t) \<noteq> None) \<and>
    (\<exists>d\<in>set docs. req_id d = Some doc_id) \<and>
    (\<forall>d\<in>set docs. req_id d = Some doc_id \<longrightarrow> req_metadata d = None) \<longrightarrow>
      fst (add_documents_batch env srv docs)
        = (if index_writable srv \<and> state_writable srv
           then Inr (BatchAdded (length docs) (length (id_list (state srv)) + length docs))
           else Inl (ServerError IOError)) \<and>
      (\<exists>dd. map_of (documents (state (snd (add_documents_batch env srv docs)))) doc_id = Some dd \<and>
            doc_metadata dd = JObj []) \<and>
      ((\<exists>us. get_documents srv = Some us) \<and>
       (\<forall>d\<in>set docs. req_metadata d = None \<or> (\<exists>m. req_metadata d = Some (JObj m))) \<longrightarrow>
        (\<exists>us dd. get_documents (snd (add_documents_batch env srv docs)) = Some us \<and>
          map_of (documents (state (snd (add_documents_batch env srv docs)))) doc_id = Some dd \<and>
          \<lparr>view_id = doc_id, title = JStr ''Untitled'', content = JStr (doc_text dd),
           category = JStr ''General'', createdBy = JStr ''System''\<rparr> \<in> set us))) \<and>
   (fst (search env srv q) = Inr (Results rs) \<and> h \<in> set rs \<and>
    map_of (documents (state srv)) (hit_id h) = Some dd \<longrightarrow>
      hit_text h = doc_text dd \<and> hit_metadata h = doc_metadata dd) \<and>
   (get_documents srv = Some vs \<and> map_of (documents (state srv)) doc_id = Some dd' \<and>
    doc_metadata dd' = JObj [] \<longrightarrow>
      \<lparr>view_id = doc_id, title = JStr ''Untitled'', content = JStr (doc_text dd'),
       category = JStr ''General'', createdBy = JStr ''System''\<rparr> \<in> set vs)"
  by (intro conjI omitted_metadata_add omitted_metadata_batch omitted_metadata_search
      omitted_metadata_listing)

text \<open>
  The id \<open>a\<close> re-added without metadata, alone and as a batch, on a process that
  stores \<open>a\<close> (itself added without metadata), lists it and reports it in a search.
\<close>

theorem omitted_metadata_stored_and_reported_witness:
  "(truthy (Str ''a'') \<and> ''cats'' \<noteq> [] \<and> encode example_env (''passage: '' @ ''cats'') \<noteq> None) \<and>
   map_of (documents (state (snd (add_document example_env
       (run example_env fresh [Add (plain_doc ''a'' ''dogs'')])
       \<lparr>req_id = Some (Str ''a''), req_text = Some ''cats'', req_metadata = None\<rparr>)))) (Str ''a'')
     = Some \<lparr>doc_text = ''cats'', doc_metadata = JObj []\<rparr> \<and>
   get_documents (run example_env fresh [Add (plain_doc ''a'' ''dogs'')])
     = Some [\<lparr>view_id = Str ''a'', title = JStr ''Untitled'', content = JStr ''dogs'',
              category = JStr ''General'', createdBy = JStr ''System''\<rparr>] \<and>
   (\<exists>us. get_documents (snd (add_document example_env
       (run example_env fresh [Add (plain_doc ''a'' ''dogs'')])
       \<lparr>req_id = Some (Str ''a''), req_text = Some ''cats'', req_metadata = None\<rparr>)) = Some us \<and>
     \<lparr>view_id = Str ''a'', title = JStr ''Untitled'', content = JStr ''cats'',
      category = JStr ''General'', createdBy = JStr ''System''\<rparr> \<in> set us) \<and>
   [plain_doc ''a'' ''cats''] \<noteq> [] \<and>
   req_id (plain_doc ''a'' ''cats'') = Some (Str ''a'') \<and>
   req_text (plain_doc ''a'' ''cats'') = Some ''cats'' \<and>
   req_metadata (plain_doc ''a'' ''cats'') = None \<and>
   (\<exists>dd. map_of (documents (state (snd (add_documents_batch example_env
        (run example_env fresh [Add (plain_doc ''a'' ''dogs'')]) [plain_doc ''a'' ''cats''])))) (Str ''a'')
        = Some dd \<and> doc_metadata dd = JObj []) \<and>
   (\<exists>us dd. get_documents (snd (add_documents_batch example_env
        (run example_env fresh [Add (plain_doc ''a'' ''dogs'')]) [plain_doc ''a'' ''cats''])) = Some us \<and>
     map_of (documents (state (snd (add_documents_batch example_env
        (run example_env fresh [Add (plain_doc ''a'' ''dogs'')]) [plain_doc ''a'' ''cats''])))) (Str ''a'')
        = Some dd \<and>
     \<lparr>view_id = Str ''a'', title = JStr ''Untitled'', content = JStr (doc_text dd),
      category = JStr ''General'', createdBy = JStr ''System''\<rparr> \<in> set us) \<and>
   fst (search example_env (run example_env fresh [Add (plain_doc ''a'' ''dogs'')])
         \<lparr>query = Some ''pets'', top_k = None\<rparr>)
     = Inr (Results [\<lparr>hit_id = Str ''a'', score = 0, hit_text = ''dogs'', hit_metadata = JObj []\<rparr>]) \<and>
   map_of (documents (state (run example_env fresh [Add (plain_doc ''a'' ''dogs'')]))) (Str ''a'')
     = Some \<lparr>doc_text = ''dogs'', doc_metadata = JObj []\<rparr> \<and>
   hit_metadata \<lparr>hit_id = Str ''a'', score = 0::nat, hit_text = ''dogs'', hit_metadata = JObj []\<rparr>
     = doc_metadata \<lparr>doc_text = ''dogs'', doc_metadata = JObj []\<rparr> \<and>
   \<lparr>view_id = Str ''a'', title = JStr ''Untitled'', content = JStr ''dogs'',
    category = JStr ''General'', createdBy = JStr ''System''\<rparr>
     \<in> set [\<lparr>view_id = Str ''a'', title = JStr ''Untitled'', content = JStr ''dogs'',
              category = JStr ''General'', createdBy = JStr ''System''\<rparr>]"
  using omitted_metadata_stored_and_reported
    [of "Str ''a''" "''cats''" example_env "run example_env fresh [Add (plain_doc ''a'' ''dogs'')]"
        "[plain_doc ''a'' ''cats'']" "\<lparr>query = Some ''pets'', top_k = None\<rparr>"
        "[\<lparr>hit_id = Str ''a'', score = 0, hit_text = ''dogs'', hit_metadata = JObj []\<rparr>]"
        "\<lparr>hit_id = Str ''a'', score = 0, hit_text = ''dogs'', hit_metadata = JObj []\<rparr>"
        "\<lparr>doc_text = ''dogs'', doc_metadata = JObj []\<rparr>"
        "[\<lparr>view_id = Str ''a'', title = JStr ''Untitled'', content = JStr ''dogs'',
           category = JStr ''General'', createdBy = JStr ''System''\<rparr>]"
        "\<lparr>doc_text = ''dogs'', doc_metadata = JObj []\<rparr>"]
  by (simp add: example_env_def fresh_def plain_doc_def handle_def add_document_def
      add_documents_batch_def search_def finish_def save_state_def store_def empty_state_def
      metadata_or_empty_def py_index_def get_documents_def view_of_def json_get_def Let_def)

text \<open>
  C10 as the claim states it fails for the listing: after the add of \<open>a\<close> without
  metadata on a fresh process the stored metadata is the empty object, and the listing
  answers with one entry that carries a title, a content, a category and an author, not
  an empty mapping.
\<close>

theorem listing_has_no_metadata_counterexample:
  "fst (add_document example_env fresh (plain_doc ''a'' ''cats'')) = Inr (Added (Str ''a'')) \<and>
   map_of (documents (state (snd (add_document example_env fresh (plain_doc ''a'' ''cats'')))))
       (Str ''a'')
     = Some \<lparr>doc_text = ''cats'', doc_metadata = JObj []\<rparr> \<and>
   get_documents (snd (add_document example_env fresh (plain_doc ''a'' ''cats'')))
     = Some [\<lparr>view_id = Str ''a'', title = JStr ''Untitled'', content = JStr ''cats'',
              category = JStr ''General'', createdBy = JStr ''System''\<rparr>]"
  by (simp add: example_env_def fresh_def plain_doc_def add_document_def
      finish_def save_state_def store_def empty_state_def
      metadata_or_empty_def get_documents_def view_of_def json_get_def Let_def)

section \<open>Errors and the state they leave\<close>

lemma batch_loop_exception:
  "\<forall>p\<in>set l. req_text (fst p) \<noteq> None \<Longrightarrow>
   fst (batch_loop l st) = None \<or> fst (batch_loop l st) = Some (KeyError ''id'')"
  by (induction l st rule: batch_loop.induct) (auto split: option.splits)

lemma add_document_early_error:
  assumes "fst (add_document env srv d) = Inl InvalidInput \<or>
           fst (add_document env srv d) = Inl (ServerError EncodeError)"
  shows "snd (add_document env srv d) = srv"
proof (cases "req_id d")
  case None
  then show ?thesis by (simp add: add_document_def Let_def)
next
  case (Some doc_id)
  note i = Some
  show ?thesis
  proof (cases "req_text d")
    case None
    with i show ?thesis by (simp add: add_document_def Let_def)
  next
    case (Some tx)
    note t = Some
    show ?thesis
    proof (cases "\<not> truthy doc_id \<or> tx = []")
      case True
      with i t show ?thesis by (simp add: add_document_def Let_def)
    next
      case False
      show ?thesis
      proof (cases "encode env (''passage: '' @ tx)")
        case None
        with i t False show ?thesis by (simp add: add_document_def Let_def)
      next
        case (Some e)
        with i t False have "\<exists>ok s. add_document env srv d = finish ok s"
          by (auto simp: add_document_def Let_def)
        then obtain ok s where "add_document env srv d = finish ok s" by blast
        with assms show ?thesis by (simp add: fst_finish split: if_splits)
      qed
    qed
  qed
qed

lemma add_documents_batch_early_error:
  assumes "fst (add_documents_batch env srv ds) = Inl (ServerError (KeyError ''text'')) \<or>
           fst (add_documents_batch env srv ds) = Inl (ServerError EncodeError)"
  shows "snd (add_documents_batch env srv ds) = srv"
proof (cases "ds = []")
  case True
  then show ?thesis by (simp add: add_documents_batch_def)
next
  case False
  note ne = False
  show ?thesis
  proof (cases "batch_texts ds")
    case None
    with ne show ?thesis by (simp add: add_documents_batch_def)
  next
    case (Some ts)
    note ts = Some
    show ?thesis
    proof (cases "encode_all env ts")
      case None
      with ne ts show ?thesis by (simp add: add_documents_batch_def)
    next
      case (Some es)
      let ?embs = "map (normalize_L2 env) es"
      let ?l = "batch_loop (zip ds ?embs) (state srv)"
      have texts: "\<forall>d\<in>set ds. req_text d \<noteq> None"
        using ts batch_texts_None_iff [of ds] by auto
      have "\<forall>p\<in>set (zip ds ?embs). req_text (fst p) \<noteq> None"
      proof
        fix p assume "p \<in> set (zip ds ?embs)"
        then have "fst p \<in> set ds"
          using set_zip_leftD [of "fst p" "snd p" ds ?embs] by simp
        with texts show "req_text (fst p) \<noteq> None" by blast
      qed
      then have cases: "fst ?l = None \<or> fst ?l = Some (KeyError ''id'')"
        by (rule batch_loop_exception)
      obtain x st' where l: "?l = (x, st')" by (cases ?l)
      show ?thesis
      proof (cases x)
        case None
        with ne ts Some l have "\<exists>ok s. add_documents_batch env srv ds = finish ok s"
          by (auto simp: add_documents_batch_def Let_def)
        then obtain ok s where "add_documents_batch env srv ds = finish ok s" by blast
        with assms show ?thesis by (simp add: fst_finish split: if_splits)
      next
        case (Some e)
        with cases l have "e = KeyError ''id''" by simp
        with ne ts \<open>encode_all env ts = Some es\<close> l Some
        have "fst (add_documents_batch env srv ds) = Inl (ServerError (KeyError ''id''))"
          by (simp add: add_documents_batch_def Let_def)
        with assms show ?thesis by simp
      qed
    qed
  qed
qed

lemma delete_document_not_found:
  assumes "fst (delete_document srv i :: (error + 'd response) \<times> 'v server) = Inl NotFound"
  shows "snd (delete_document srv i :: (error + 'd response) \<times> 'v server) = srv"
proof (cases "map_of (documents (state srv)) (Str i) = None")
  case True
  then show ?thesis by (simp add: delete_document_def)
next
  case False
  have "fst (delete_document srv i :: (error + 'd response) \<times> 'v server) \<noteq> Inl NotFound"
    using False
    by (auto simp: delete_document_def Let_def fst_finish split: sum.splits)
  with assms show ?thesis by simp
qed

lemma add_document_write_failure:
  assumes "truthy doc_id" and "txt \<noteq> []" and "encode env (''passage: '' @ txt) = Some e"
    and "\<not> (index_writable srv \<and> state_writable srv)"
  shows "fst (add_document env srv \<lparr>req_id = Some doc_id, req_text = Some txt, req_metadata = m\<rparr>)
           = Inl (ServerError IOError) \<and>
         index (snd (add_document env srv
             \<lparr>req_id = Some doc_id, req_text = Some txt, req_metadata = m\<rparr>))
           = index srv @ [normalize_L2 env e] \<and>
         id_list (state (snd (add_document env srv
             \<lparr>req_id = Some doc_id, req_text = Some txt, req_metadata = m\<rparr>)))
           = id_list (state srv) @ [doc_id] \<and>
         map_of (documents (state (snd (add_document env srv
             \<lparr>req_id = Some doc_id, req_text = Some txt, req_metadata = m\<rparr>)))) doc_id
           = Some \<lparr>doc_text = txt, doc_metadata = metadata_or_empty m\<rparr> \<and>
         map_of (embeddings (state (snd (add_document env srv
             \<lparr>req_id = Some doc_id, req_text = Some txt, req_metadata = m\<rparr>)))) doc_id
           = Some (normalize_L2 env e)"
  using assms(4)
  by (simp add: add_document_accepted [OF assms(1-3)] fst_finish store_index_fields update_conv')


lemma add_document_early_error_imp:
  "fst (add_document env srv d) = Inl InvalidInput \<or>
   fst (add_document env srv d) = Inl (ServerError EncodeError) \<longrightarrow>
     snd (add_document env srv d) = srv"
  using add_document_early_error [of env srv d] by blast

lemma add_documents_batch_early_error_imp:
  "fst (add_documents_batch env srv ds) = Inl (ServerError (KeyError ''text'')) \<or>
   fst (add_documents_batch env srv ds) = Inl (ServerError EncodeError) \<longrightarrow>
     snd (add_documents_batch env srv ds) = srv"
  using add_documents_batch_early_error [of env srv ds] by blast

lemma delete_document_not_found_imp:
  "fst (delete_document srv i :: (error + 'd response) \<times> 'v server) = Inl NotFound \<longrightarrow>
     snd (delete_document srv i :: (error + 'd response) \<times> 'v server) = srv"
  using delete_document_not_found [of srv i] by blast

lemma add_document_write_failure_imp:
  "truthy doc_id \<and> tx \<noteq> [] \<and> encode env (''passage: '' @ tx) = Some e \<and>
   \<not> (index_writable srv \<and> state_writable srv) \<longrightarrow>
     fst (add_document env srv \<lparr>req_id = Some doc_id, req_text = Some tx, req_metadata = m\<rparr>)
       = Inl (ServerError IOError) \<and>
     index (snd (add_document env srv
         \<lparr>req_id = Some doc_id, req_text = Some tx, req_metadata = m\<rparr>))
       = index srv @ [normalize_L2 env e] \<and>
     id_list (state (snd (add_document env srv
         \<lparr>req_id = Some doc_id, req_text = Some tx, req_metadata = m\<rparr>)))
       = id_list (state srv) @ [doc_id] \<and>
     map_of (documents (state (snd (add_document env srv
         \<lparr>req_id = Some doc_id, req_text = Some tx, req_metadata = m\<rparr>)))) doc_id
       = Some \<lparr>doc_text = tx, doc_metadata = metadata_or_empty m\<rparr> \<and>
     map_of (embeddings (state (snd (add_document env srv
         \<lparr>req_id = Some doc_id, req_text = Some tx, req_metadata = m\<rparr>)))) doc_id
       = Some (normalize_L2 env e)"
  using add_document_write_failure [of doc_id tx env e srv m] by blast

text \<open>
  C2, as the handlers have it. An error that a handler returns before its first
  mutation leaves the process as it was:
  \<^item> \<^verbatim>\<open>add_document\<close> answering \<open>InvalidInput\<close> or the encoder's failure;
  \<^item> \<^verbatim>\<open>add_documents_batch\<close> answering the \<^verbatim>\<open>KeyError\<close> of a missing text or the
    encoder's failure;
  \<^item> \<^verbatim>\<open>search\<close>, whatever it answers;
  \<^item> \<^verbatim>\<open>delete_document\<close> answering \<open>NotFound\<close>.

  No handler rolls back: when the snapshot cannot be written, \<^verbatim>\<open>add_document\<close> answers
  with the write error and keeps the appended row, the row-order entry, the document
  and the cached vector.
\<close>

theorem error_before_mutation_keeps_state:
  "(fst (add_document env srv d) = Inl InvalidInput \<or>
    fst (add_document env srv d) = Inl (ServerError EncodeError) \<longrightarrow>
      snd (add_document env srv d) = srv) \<and>
   (fst (add_documents_batch env srv ds) = Inl (ServerError (KeyError ''text'')) \<or>
    fst (add_documents_batch env srv ds) = Inl (ServerError EncodeError) \<longrightarrow>
      snd (add_documents_batch env srv ds) = srv) \<and>
   snd (search env srv q) = srv \<and>
   (fst (delete_document srv i :: (error + 'd response) \<times> 'v server) = Inl NotFound \<longrightarrow>
      snd (delete_document srv i :: (error + 'd response) \<times> 'v server) = srv) \<and>
   (truthy doc_id \<and> tx \<noteq> [] \<and> encode env (''passage: '' @ tx) = Some e \<and>
    \<not> (index_writable srv \<and> state_writable srv) \<longrightarrow>
      fst (add_document env srv \<lparr>req_id = Some doc_id, req_text = Some tx, req_metadata = m\<rparr>)
        = Inl (ServerError IOError) \<and>
      index (snd (add_document env srv
          \<lparr>req_id = Some doc_id, req_text = Some tx, req_metadata = m\<rparr>))
        = index srv @ [normalize_L2 env e] \<and>
      id_list (state (snd (add_document env srv
          \<lparr>req_id = Some doc_id, req_text = Some tx, req_metadata = m\<rparr>)))
        = id_list (state srv) @ [doc_id] \<and>
      map_of (documents (state (snd (add_document env srv
          \<lparr>req_id = Some doc_id, req_text = Some tx, req_metadata = m\<rparr>)))) doc_id
        = Some \<lparr>doc_text = tx, doc_metadata = metadata_or_empty m\<rparr> \<and>
      map_of (embeddings (state (snd (add_document env srv
          \<lparr>req_id = Some doc_id, req_text = Some tx, req_metadata = m\<rparr>)))) doc_id
        = Some (normalize_L2 env e))"
  by (intro conjI add_document_early_error_imp add_documents_batch_early_error_imp
      search_frame delete_document_not_found_imp add_document_write_failure_imp)

text \<open>
  On a process whose state file cannot be written: an add with an empty id, a batch
  with a document without text, a delete of an unknown id, and an add of \<open>a\<close>.
\<close>

theorem error_before_mutation_keeps_state_witness:
  "fst (add_document example_env (fresh\<lparr>state_writable := False\<rparr>) (plain_doc [] ''cats''))
     = Inl InvalidInput \<and>
   snd (add_document example_env (fresh\<lparr>state_writable := False\<rparr>) (plain_doc [] ''cats''))
     = fresh\<lparr>state_writable := False\<rparr> \<and>
   fst (add_documents_batch example_env (fresh\<lparr>state_writable := False\<rparr>)
          [\<lparr>req_id = Some (Str ''b''), req_text = None, req_metadata = None\<rparr>])
     = Inl (ServerError (KeyError ''text'')) \<and>
   snd (add_documents_batch example_env (fresh\<lparr>state_writable := False\<rparr>)
          [\<lparr>req_id = Some (Str ''b''), req_text = None, req_metadata = None\<rparr>])
     = fresh\<lparr>state_writable := False\<rparr> \<and>
   fst (delete_document (fresh\<lparr>state_writable := False\<rparr> :: nat server) ''a''
         :: (error + nat response) \<times> nat server) = Inl NotFound \<and>
   snd (delete_document (fresh\<lparr>state_writable := False\<rparr> :: nat server) ''a''
         :: (error + nat response) \<times> nat server) = fresh\<lparr>state_writable := False\<rparr> \<and>
   (truthy (Str ''a'') \<and> ''cats'' \<noteq> [] \<and> encode example_env (''passage: '' @ ''cats'') = Some 13 \<and>
    \<not> (index_writable (fresh\<lparr>state_writable := False\<rparr> :: nat server) \<and>
       state_writable (fresh\<lparr>state_writable := False\<rparr> :: nat server))) \<and>
   index (snd (add_document example_env (fresh\<lparr>state_writable := False\<rparr>)
         \<lparr>req_id = Some (Str ''a''), req_text = Some ''cats'', req_metadata = None\<rparr>)) = [13]"
  using error_before_mutation_keeps_state
    [of example_env "fresh\<lparr>state_writable := False\<rparr>" "plain_doc [] ''cats''"
        "[\<lparr>req_id = Some (Str ''b''), req_text = None, req_metadata = None\<rparr>]"
        "\<lparr>query = None, top_k = None\<rparr>" "''a''" "Str ''a''" "''cats''" 13 None]
  by (simp add: example_env_def fresh_def plain_doc_def add_document_def add_documents_batch_def
      delete_document_def empty_state_def Let_def)

text \<open>
  C2 as the claim states it fails: the add of \<open>a\<close> on a fresh process whose state file
  cannot be written answers with an error, and the index, the documents, the row order
  and the cache all hold the new document.
\<close>

theorem add_document_write_failure_counterexample:
  "fst (add_document example_env (fresh\<lparr>state_writable := False\<rparr>) (plain_doc ''a'' ''cats''))
     = Inl (ServerError IOError) \<and>
   index (snd (add_document example_env (fresh\<lparr>state_writable := False\<rparr>)
                (plain_doc ''a'' ''cats''))) = [13] \<and>
   index (fresh\<lparr>state_writable := False\<rparr> :: nat server) = [] \<and>
   state (snd (add_document example_env (fresh\<lparr>state_writable := False\<rparr>)
                (plain_doc ''a'' ''cats'')))
     = \<lparr>documents = [(Str ''a'', \<lparr>doc_text = ''cats'', doc_metadata = JObj []\<rparr>)],
        id_list = [Str ''a''], embeddings = [(Str ''a'', 13)]\<rparr> \<and>
   state (fresh\<lparr>state_writable := False\<rparr> :: nat server)
     = \<lparr>documents = [], id_list = [], embeddings = []\<rparr>"
  by (simp add: example_env_def fresh_def plain_doc_def add_document_def finish_def
      save_state_def store_def empty_state_def metadata_or_empty_def Let_def)

section \<open>An id added twice\<close>

text \<open>
  C1 at the requests add \<open>a\<close>, add \<open>a\<close>: the row order and the index have two
  entries, the documents and the cache one key. After the delete of \<open>a\<close> that follows,
  the row order has one entry and the index, the documents and the cache none.
\<close>

theorem duplicate_add_breaks_counts:
  "id_list (state (run example_env fresh
       [Add (plain_doc ''a'' ''cats''), Add (plain_doc ''a'' ''dogs'')])) = [Str ''a'', Str ''a''] \<and>
   length (index (run example_env fresh
       [Add (plain_doc ''a'' ''cats''), Add (plain_doc ''a'' ''dogs'')])) = 2 \<and>
   map fst (documents (state (run example_env fresh
       [Add (plain_doc ''a'' ''cats''), Add (plain_doc ''a'' ''dogs'')]))) = [Str ''a''] \<and>
   map fst (embeddings (state (run example_env fresh
       [Add (plain_doc ''a'' ''cats''), Add (plain_doc ''a'' ''dogs'')]))) = [Str ''a''] \<and>
   id_list (state (run example_env fresh
       [Add (plain_doc ''a'' ''cats''), Add (plain_doc ''a'' ''dogs''), Delete ''a''])) = [Str ''a''] \<and>
   index (run example_env fresh
       [Add (plain_doc ''a'' ''cats''), Add (plain_doc ''a'' ''dogs''), Delete ''a'']) = [] \<and>
   documents (state (run example_env fresh
       [Add (plain_doc ''a'' ''cats''), Add (plain_doc ''a'' ''dogs''), Delete ''a''])) = [] \<and>
   embeddings (state (run example_env fresh
       [Add (plain_doc ''a'' ''cats''), Add (plain_doc ''a'' ''dogs''), Delete ''a''])) = []"
  by (simp add: example_env_def fresh_def plain_doc_def handle_def add_document_def
      delete_document_def finish_def save_state_def store_def empty_state_def
      metadata_or_empty_def Let_def)

text \<open>
  C3 at the state that add \<open>a\<close>, add \<open>a\<close> reaches: the delete of \<open>a\<close> answers with
  the \<^verbatim>\<open>KeyError\<close> of the rebuild, with \<open>a\<close> still in the row order and the index
  empty.
\<close>

theorem delete_after_duplicate_add_fails:
  "fst (handle example_env
         (run example_env fresh [Add (plain_doc ''a'' ''cats''), Add (plain_doc ''a'' ''dogs'')])
         (Delete ''a'')) = Inl (ServerError (KeyError ''a'')) \<and>
   state (snd (handle example_env
         (run example_env fresh [Add (plain_doc ''a'' ''cats''), Add (plain_doc ''a'' ''dogs'')])
         (Delete ''a''))) = \<lparr>documents = [], id_list = [Str ''a''], embeddings = []\<rparr> \<and>
   index (snd (handle example_env
         (run example_env fresh [Add (plain_doc ''a'' ''cats''), Add (plain_doc ''a'' ''dogs'')])
         (Delete ''a''))) = []"
  by (simp add: example_env_def fresh_def plain_doc_def handle_def add_document_def
      delete_document_def finish_def save_state_def store_def empty_state_def
      metadata_or_empty_def Let_def)

section \<open>Handlers on a state that stores every id once\<close>

text \<open>
  The two sections above show what an id added twice does. On a consistent state the
  handlers keep the invariant: the fresh process is consistent, an add under a new id
  keeps it, and so does a delete.
\<close>

lemma gather_Inr:
  "\<forall>i\<in>set ids. map_of cache i \<noteq> None \<Longrightarrow>
   gather cache ids = Inr (map (\<lambda>i. the (map_of cache i)) ids)"
  by (induction ids) auto

lemma gather_InrD:
  "gather cache ids = Inr vs \<Longrightarrow>
   (\<forall>i\<in>set ids. map_of cache i \<noteq> None) \<and> vs = map (\<lambda>i. the (map_of cache i)) ids"
  by (induction ids arbitrary: vs) (auto split: option.splits sum.splits)

lemma gather_Inr_iff:
  "gather cache ids = Inr vs \<longleftrightarrow>
     (\<forall>i\<in>set ids. map_of cache i \<noteq> None) \<and> vs = map (\<lambda>i. the (map_of cache i)) ids"
  using gather_Inr [of ids cache] gather_InrD [of cache ids vs] by auto

lemma gather_after_delete:
  assumes "gather cache ids = Inr vs" and "distinct ids" and "x \<in> set ids"
  shows "gather (AList.delete x cache) (remove1 x ids) =
           Inr (map (\<lambda>i. the (map_of cache i)) (remove1 x ids))"
proof -
  have "\<forall>i\<in>set (remove1 x ids). i \<noteq> x"
    using assms(2) by simp
  moreover have "\<forall>i\<in>set (remove1 x ids). map_of cache i \<noteq> None"
    using assms(1,2) by (simp add: gather_Inr_iff)
  ultimately show ?thesis
    by (simp add: gather_Inr_iff delete_conv')
qed

lemma py_index_member: "py_index xs i = Inr x \<Longrightarrow> x \<in> set xs"
  by (auto simp: py_index_def Let_def split: if_splits)

lemma search_loop_ids:
  "search_loop st found = Inr rs \<Longrightarrow> h \<in> set rs \<Longrightarrow> hit_id h \<in> set (id_list st)"
proof (induction found arbitrary: rs)
  case Nil
  then show ?case by simp
next
  case (Cons p rest)
  obtain idx dst where p: "p = (idx, dst)" by (cases p)
  show ?case
  proof (cases "idx = - 1 \<or> idx \<ge> int (length (id_list st))")
    case True
    with Cons.prems(1) p have "search_loop st rest = Inr rs" by simp
    with Cons.IH Cons.prems(2) show ?thesis by blast
  next
    case False
    with Cons.prems(1) p obtain doc_id hh rs' where
      parts: "py_index (id_list st) idx = Inr doc_id" "search_loop st rest = Inr rs'"
        "rs = hh # rs'" "hit_id hh = doc_id"
      by (auto split: sum.splits option.splits)
    show ?thesis
    proof (cases "h \<in> set rs'")
      case True
      with Cons.IH parts(2) show ?thesis by blast
    next
      case False
      with Cons.prems(2) parts(3,4) have "hit_id h = doc_id" by auto
      with parts(1) show ?thesis by (simp add: py_index_member)
    qed
  qed
qed

lemma search_ids:
  assumes "fst (search env srv data) = Inr (Results rs)" and "h \<in> set rs"
  shows "hit_id h \<in> set (id_list (state srv))"
proof -
  from search_results_from_loop [OF assms(1)] assms(2)
  obtain found where "search_loop (state srv) found = Inr rs" by auto
  then show ?thesis using assms(2) by (rule search_loop_ids)
qed

lemma delete_document_consistent_result:
  assumes "consistent srv" and "(Str name) \<in> set (id_list (state srv))"
  shows "(delete_document srv name :: (error + 'd response) \<times> 'v server) =
           finish Deleted
             (srv\<lparr>state := (state srv)\<lparr>documents := AList.delete (Str name) (documents (state srv)),
                            id_list := remove1 (Str name) (id_list (state srv)),
                            embeddings := AList.delete (Str name) (embeddings (state srv))\<rparr>,
                  index := map (\<lambda>i. the (map_of (embeddings (state srv)) i))
                             (remove1 (Str name) (id_list (state srv)))\<rparr>)"
proof -
  let ?st = "state srv"
  from assms(1) have e1: "set (id_list ?st) = fst ` set (documents ?st)"
    and e2: "set (id_list ?st) = fst ` set (embeddings ?st)"
    unfolding consistent_def by blast+
  from assms(2) e1 have "(Str name) \<in> fst ` set (documents ?st)" by blast
  moreover from assms(2) e2 have "(Str name) \<in> fst ` set (embeddings ?st)" by blast
  ultimately have "(Str name) \<in> fst ` set (documents ?st)" and "(Str name) \<in> fst ` set (embeddings ?st)" .
  then have "map_of (documents ?st) (Str name) \<noteq> None" and "map_of (embeddings ?st) (Str name) \<noteq> None"
    by (simp_all add: map_of_eq_None_iff)
  then obtain dv ev where indoc: "map_of (documents ?st) (Str name) = Some dv"
    and inemb: "map_of (embeddings ?st) (Str name) = Some ev"
    by blast
  from assms(1) have g: "gather (embeddings ?st) (id_list ?st) = Inr (index srv)"
    and d: "distinct (id_list ?st)"
    by (simp_all add: consistent_def)
  note g' = gather_after_delete [OF g d assms(2)]
  show ?thesis
  proof (cases "remove1 (Str name) (id_list ?st) = []")
    case True
    with indoc inemb assms(2) show ?thesis
      by (simp add: delete_document_def Let_def)
  next
    case False
    with indoc inemb assms(2) g' show ?thesis
      by (simp add: delete_document_def Let_def)
  qed
qed


lemma remove1_distinct_filter: "distinct ids \<Longrightarrow> remove1 x ids = filter (\<lambda>i. i \<noteq> x) ids"
proof -
  assume "distinct ids"
  then have "remove1 x ids = removeAll x ids" by (rule distinct_remove1_removeAll)
  also have "removeAll x ids = filter (\<lambda>i. i \<noteq> x) ids" by (induction ids) auto
  finally show ?thesis .
qed

lemma consistent_cong:
  "state a = state b \<Longrightarrow> index a = index b \<Longrightarrow> consistent a = consistent b"
  by (simp add: consistent_def)

lemma consistent_after_delete:
  assumes "consistent srv" and "x \<in> set (id_list (state srv))"
  shows "consistent
           (srv\<lparr>state := (state srv)\<lparr>documents := AList.delete x (documents (state srv)),
                          id_list := remove1 x (id_list (state srv)),
                          embeddings := AList.delete x (embeddings (state srv))\<rparr>,
                index := map (\<lambda>i. the (map_of (embeddings (state srv)) i))
                           (remove1 x (id_list (state srv)))\<rparr>)"
proof -
  let ?st = "state srv"
  from assms(1) have d: "distinct (id_list ?st)"
    and dd: "distinct (map fst (documents ?st))"
    and de: "distinct (map fst (embeddings ?st))"
    and e1: "set (id_list ?st) = fst ` set (documents ?st)"
    and e2: "set (id_list ?st) = fst ` set (embeddings ?st)"
    and g: "gather (embeddings ?st) (id_list ?st) = Inr (index srv)"
    unfolding consistent_def by blast+
  have k1: "fst ` set (AList.delete x (documents ?st)) = fst ` set (documents ?st) - {x}"
    by (auto simp: AList.delete_eq)
  have k2: "fst ` set (AList.delete x (embeddings ?st)) = fst ` set (embeddings ?st) - {x}"
    by (auto simp: AList.delete_eq)
  have s: "set (remove1 x (id_list ?st)) = set (id_list ?st) - {x}"
    using d by simp
  show ?thesis
    unfolding consistent_def
    using d dd de e1 e2 k1 k2 s gather_after_delete [OF g d assms(2)]
    by (simp add: distinct_delete)
qed

text \<open>
  On a consistent state that holds the id, \<^verbatim>\<open>delete_document\<close> answers with success
  (with the write error when the snapshot cannot be written), removes the id from the
  documents, from the row order and from the cache, keeps the other ids of the row
  order in their order, rebuilds the index from the cached vectors in the order of the
  new row order, and leaves a consistent state in which no search returns the id.
\<close>

theorem delete_document_consistent:
  assumes "consistent srv" and "(Str name) \<in> set (id_list (state srv))"
  shows "fst (delete_document srv name :: (error + 'd response) \<times> 'v server)
           = (if index_writable srv \<and> state_writable srv then Inr Deleted
              else Inl (ServerError IOError)) \<and>
         documents (state (snd (delete_document srv name :: (error + 'd response) \<times> 'v server)))
           = AList.delete (Str name) (documents (state srv)) \<and>
         id_list (state (snd (delete_document srv name :: (error + 'd response) \<times> 'v server)))
           = filter (\<lambda>i. i \<noteq> (Str name)) (id_list (state srv)) \<and>
         length (id_list (state (snd (delete_document srv name :: (error + 'd response) \<times> 'v server))))
           = length (id_list (state srv)) - 1 \<and>
         embeddings (state (snd (delete_document srv name :: (error + 'd response) \<times> 'v server)))
           = AList.delete (Str name) (embeddings (state srv)) \<and>
         gather (embeddings (state (snd (delete_document srv name :: (error + 'd response) \<times> 'v server))))
                (id_list (state (snd (delete_document srv name :: (error + 'd response) \<times> 'v server))))
           = Inr (index (snd (delete_document srv name :: (error + 'd response) \<times> 'v server))) \<and>
         consistent (snd (delete_document srv name :: (error + 'd response) \<times> 'v server)) \<and>
         (\<forall>(env :: ('v, 'd) env) q rs h.
            fst (search env (snd (delete_document srv name :: (error + 'd response) \<times> 'v server)) q)
              = Inr (Results rs) \<and> h \<in> set rs \<longrightarrow> hit_id h \<noteq> (Str name))"
proof -
  let ?srv' = "srv\<lparr>state := (state srv)\<lparr>documents := AList.delete (Str name) (documents (state srv)),
                          id_list := remove1 (Str name) (id_list (state srv)),
                          embeddings := AList.delete (Str name) (embeddings (state srv))\<rparr>,
                index := map (\<lambda>i. the (map_of (embeddings (state srv)) i))
                           (remove1 (Str name) (id_list (state srv)))\<rparr>"
  let ?r = "delete_document srv name :: (error + 'd response) \<times> 'v server"
  have r: "?r = finish Deleted ?srv'"
    by (rule delete_document_consistent_result [OF assms])
  from assms(1) have d: "distinct (id_list (state srv))"
    unfolding consistent_def by blast
  have c': "consistent ?srv'" by (rule consistent_after_delete [OF assms])
  have st: "state (snd ?r) = state ?srv'" and ix: "index (snd ?r) = index ?srv'"
    unfolding r by simp_all
  have c: "consistent (snd ?r)"
    using consistent_cong [OF st ix] c' by simp
  have ids: "id_list (state (snd ?r)) = filter (\<lambda>i. i \<noteq> (Str name)) (id_list (state srv))"
    unfolding st using d by (simp add: remove1_distinct_filter)
  have len: "length (id_list (state (snd ?r))) = length (id_list (state srv)) - 1"
    unfolding st using assms(2) by (simp add: length_remove1)
  have notin: "(Str name) \<notin> set (id_list (state (snd ?r)))"
    unfolding ids by simp
  have srch: "\<forall>(env :: ('v, 'd) env) q rs h.
            fst (search env (snd ?r) q) = Inr (Results rs) \<and> h \<in> set rs \<longrightarrow> hit_id h \<noteq> (Str name)"
  proof (intro allI impI)
    fix env :: "('v, 'd) env" and q rs h
    assume "fst (search env (snd ?r) q) = Inr (Results rs) \<and> h \<in> set rs"
    then have "hit_id h \<in> set (id_list (state (snd ?r)))"
      using search_ids [of env "snd ?r" q rs h] by blast
    with notin show "hit_id h \<noteq> (Str name)" by auto
  qed
  have f: "fst ?r = (if index_writable srv \<and> state_writable srv then Inr Deleted
              else Inl (ServerError IOError))"
    unfolding r by (simp add: fst_finish)
  have g: "gather (embeddings (state (snd ?r))) (id_list (state (snd ?r))) = Inr (index (snd ?r))"
    using c unfolding consistent_def by blast
  have dc: "documents (state (snd ?r)) = AList.delete (Str name) (documents (state srv))"
    and em: "embeddings (state (snd ?r)) = AList.delete (Str name) (embeddings (state srv))"
    unfolding st by simp_all
  from f dc ids len em g c srch show ?thesis by (intro conjI)
qed

lemma consistent_finish: "consistent (snd (finish ok srv)) = consistent srv"
  by (rule consistent_cong) simp_all

lemma consistent_fresh: "consistent fresh"
  by (simp add: consistent_def fresh_def empty_state_def)

text \<open>An accepted add under an id that the row order does not hold keeps the invariant.\<close>

theorem add_document_new_id_consistent:
  assumes "consistent srv" and "doc_id \<notin> set (id_list (state srv))"
    and "truthy doc_id" and "tx \<noteq> []" and "encode env (''passage: '' @ tx) = Some e"
  shows "consistent (snd (add_document env srv
           \<lparr>req_id = Some doc_id, req_text = Some tx, req_metadata = m\<rparr>))"
proof -
  let ?st = "state srv"
  let ?v = "normalize_L2 env e"
  let ?srv' = "srv\<lparr>index := index srv @ [?v],
                    state := store doc_id tx (metadata_or_empty m) ?v ?st\<rparr>"
  from assms(1) have d: "distinct (id_list ?st)"
    and dd: "distinct (map fst (documents ?st))"
    and de: "distinct (map fst (embeddings ?st))"
    and e1: "set (id_list ?st) = fst ` set (documents ?st)"
    and e2: "set (id_list ?st) = fst ` set (embeddings ?st)"
    and g: "gather (embeddings ?st) (id_list ?st) = Inr (index srv)"
    unfolding consistent_def by blast+
  from g have all: "\<forall>i\<in>set (id_list ?st). map_of (embeddings ?st) i \<noteq> None"
    and ix: "index srv = map (\<lambda>i. the (map_of (embeddings ?st) i)) (id_list ?st)"
    by (simp_all add: gather_Inr_iff)
  have same: "map (\<lambda>i. the (map_of (AList.update doc_id ?v (embeddings ?st)) i)) (id_list ?st)
                = map (\<lambda>i. the (map_of (embeddings ?st) i)) (id_list ?st)"
    using assms(2) by (auto simp: update_conv')
  have g': "gather (AList.update doc_id ?v (embeddings ?st)) (id_list ?st @ [doc_id])
              = Inr (index srv @ [?v])"
    using all same ix by (simp add: gather_Inr_iff update_conv')
  have k1: "fst ` set (AList.update doc_id \<lparr>doc_text = tx, doc_metadata = metadata_or_empty m\<rparr>
                         (documents ?st)) = insert doc_id (set (id_list ?st))"
    using e1 by (simp add: dom_update)
  have k2: "fst ` set (AList.update doc_id ?v (embeddings ?st)) = insert doc_id (set (id_list ?st))"
    using e2 by (simp add: dom_update)
  have "consistent ?srv'"
    unfolding consistent_def
    using d dd de assms(2) g' k1 k2
    by (simp add: store_index_fields distinct_update)
  then show ?thesis
    unfolding add_document_accepted [OF assms(3-5)]
    by (simp add: consistent_finish)
qed

section \<open>Persisting the snapshot and restarting\<close>

















lemma writable_save_state:
  "index_writable (snd (save_state srv)) = index_writable srv \<and>
   state_writable (snd (save_state srv)) = state_writable srv"
  by (simp add: save_state_def Let_def)







section \<open>Normalised vectors\<close>








end
